theory Spec2Isabelle
  imports Complex_Main "HOL-Library.Char_ord" "HOL-Library.List_Lexorder"
begin

section \<open>Python strings and numbers\<close>

text \<open>
  The program is \<^verbatim>\<open>src/main.py\<close>, a Tk front end that drives ffprobe and ffmpeg.
  Strings are modelled as lists of ASCII characters. Python's \<^verbatim>\<open>float\<close> values are
  idealised: a finite float is an exact rational (rounding and overflow are not modelled),
  and the two infinities and NaN are separate values.
\<close>

definition is_space :: "char \<Rightarrow> bool" where
  "is_space c \<longleftrightarrow> c \<in> set [CHR 0x09, CHR 0x0A, CHR 0x0B, CHR 0x0C, CHR 0x0D,
                           CHR 0x1C, CHR 0x1D, CHR 0x1E, CHR 0x1F, CHR 0x20]"

text \<open>\<^verbatim>\<open>str.strip()\<close>\<close>

definition strip :: "string \<Rightarrow> string" where
  "strip s = rev (dropWhile is_space (rev (dropWhile is_space s)))"

definition is_digit :: "char \<Rightarrow> bool" where
  "is_digit c \<longleftrightarrow> (48::nat) \<le> of_char c \<and> of_char c \<le> (57::nat)"

definition digit_val :: "char \<Rightarrow> nat" where
  "digit_val c = of_char c - 48"

text \<open>\<^verbatim>\<open>str.lower()\<close> on ASCII\<close>

definition lower_char :: "char \<Rightarrow> char" where
  "lower_char c = (if (65::nat) \<le> of_char c \<and> of_char c \<le> (90::nat)
                   then char_of (of_char c + (32::nat)) else c)"

definition lower :: "string \<Rightarrow> string" where
  "lower s = map lower_char s"

text \<open>\<^verbatim>\<open>str.startswith\<close>\<close>

fun startswith :: "string \<Rightarrow> string \<Rightarrow> bool" where
  "startswith s [] = True"
| "startswith [] (p # ps) = False"
| "startswith (c # cs) (p # ps) = (c = p \<and> startswith cs ps)"

text \<open>\<^verbatim>\<open>str.split(sep)\<close> for a one-character separator: never empty, one more field
  than there are separators.\<close>

fun split_on :: "char \<Rightarrow> string \<Rightarrow> string list" where
  "split_on sep [] = [[]]"
| "split_on sep (c # cs) =
     (if c = sep then [] # split_on sep cs
      else (case split_on sep cs of
              [] \<Rightarrow> [[c]]
            | w # ws \<Rightarrow> (c # w) # ws))"

text \<open>
  A run of decimal digits as Python's numeric literals in strings allow it: single
  underscores may stand between two digits. Returns the value read so far, the number
  of digits read and the unread rest.
\<close>

fun digit_run :: "nat \<Rightarrow> nat \<Rightarrow> string \<Rightarrow> nat \<times> nat \<times> string" where
  "digit_run acc k [] = (acc, k, [])"
| "digit_run acc k (c # cs) =
     (if is_digit c then digit_run (10 * acc + digit_val c) (Suc k) cs
      else if c = CHR ''_'' \<and> 0 < k \<and> (case cs of [] \<Rightarrow> False | d # _ \<Rightarrow> is_digit d)
      then digit_run acc k cs
      else (acc, k, c # cs))"

text \<open>An optional sign: \<open>True\<close> for a minus.\<close>

fun take_sign :: "string \<Rightarrow> bool \<times> string" where
  "take_sign [] = (False, [])"
| "take_sign (c # cs) =
     (if c = CHR ''-'' then (True, cs)
      else if c = CHR ''+'' then (False, cs)
      else (False, c # cs))"

text \<open>\<^verbatim>\<open>int(s)\<close> in base ten; \<open>None\<close> stands for the \<^verbatim>\<open>ValueError\<close>. (The
  limit that recent versions of Python put on the number of digits is left out.)\<close>

definition py_int :: "string \<Rightarrow> int option" where
  "py_int s =
     (case take_sign (strip s) of (neg, body) \<Rightarrow>
        (case digit_run 0 0 body of (v, k, rest) \<Rightarrow>
           if 0 < k \<and> rest = [] then Some (if neg then - int v else int v) else None))"

datatype pyfloat = Finite rat | PosInf | NegInf | NaN

text \<open>The exponent part of a float literal: \<open>None\<close> when it is malformed.\<close>

definition float_exponent :: "string \<Rightarrow> int option" where
  "float_exponent r =
     (case r of
        [] \<Rightarrow> Some 0
      | c # cs \<Rightarrow>
          if c = CHR ''e'' \<or> c = CHR ''E'' then
            (case take_sign cs of (eneg, ebody) \<Rightarrow>
               (case digit_run 0 0 ebody of (ev, ek, erest) \<Rightarrow>
                  if 0 < ek \<and> erest = [] then Some (if eneg then - int ev else int ev)
                  else None))
          else None)"

definition scale10 :: "rat \<Rightarrow> int \<Rightarrow> rat" where
  "scale10 m e = (if 0 \<le> e then m * 10 ^ nat e else m / 10 ^ nat (- e))"

definition signed :: "bool \<Rightarrow> pyfloat \<Rightarrow> pyfloat" where
  "signed neg x =
     (if neg then (case x of Finite q \<Rightarrow> Finite (- q) | PosInf \<Rightarrow> NegInf
                   | NegInf \<Rightarrow> PosInf | NaN \<Rightarrow> NaN)
      else x)"

text \<open>\<^verbatim>\<open>float(s)\<close>; \<open>None\<close> stands for the \<^verbatim>\<open>ValueError\<close>.\<close>

definition py_float :: "string \<Rightarrow> pyfloat option" where
  "py_float s =
     (case take_sign (strip s) of (neg, body) \<Rightarrow>
        if lower body = ''inf'' \<or> lower body = ''infinity'' then Some (signed neg PosInf)
        else if lower body = ''nan'' then Some NaN
        else
          (case digit_run 0 0 body of (m1, k1, r1) \<Rightarrow>
             (case (case r1 of
                      [] \<Rightarrow> (0, 0, r1)
                    | c # cs \<Rightarrow> if c = CHR ''.'' then digit_run 0 0 cs else (0, 0, r1))
              of (m2, k2, r2) \<Rightarrow>
                if k1 + k2 = 0 then None
                else
                  (case float_exponent r2 of
                     None \<Rightarrow> None
                   | Some e \<Rightarrow>
                       Some (signed neg
                         (Finite (scale10 (of_nat m1 + of_nat m2 / 10 ^ k2) e)))))))"

text \<open>\<^verbatim>\<open>str(n)\<close> for an integer: the decimal numeral, with a minus sign below zero.\<close>

fun digits_of :: "nat \<Rightarrow> string" where
  "digits_of n =
     (if n < 10 then [char_of (48 + n)]
      else digits_of (n div 10) @ [char_of (48 + n mod 10)])"

declare digits_of.simps [simp del]

definition str_int :: "int \<Rightarrow> string" where
  "str_int i = (if i < 0 then CHR ''-'' # digits_of (nat (- i)) else digits_of (nat i))"

text \<open>\<^verbatim>\<open>int(x)\<close> on a float: truncation towards zero.\<close>

definition py_trunc :: "rat \<Rightarrow> int" where
  "py_trunc x = (if 0 \<le> x then \<lfloor>x\<rfloor> else \<lceil>x\<rceil>)"

datatype exn = ValueError | KeyError | IndexError | ZeroDivisionError | OSError
  | CalledProcessError

text \<open>Float division: a zero divisor raises, whatever the dividend.\<close>

fun py_div :: "pyfloat \<Rightarrow> pyfloat \<Rightarrow> exn + pyfloat" where
  "py_div x (Finite b) =
     (if b = 0 then Inl ZeroDivisionError
      else (case x of
              Finite a \<Rightarrow> Inr (Finite (a / b))
            | PosInf \<Rightarrow> Inr (if 0 < b then PosInf else NegInf)
            | NegInf \<Rightarrow> Inr (if 0 < b then NegInf else PosInf)
            | NaN \<Rightarrow> Inr NaN))"
| "py_div (Finite a) PosInf = Inr (Finite 0)"
| "py_div (Finite a) NegInf = Inr (Finite 0)"
| "py_div x y = Inr NaN"

fun py_mul :: "pyfloat \<Rightarrow> pyfloat \<Rightarrow> pyfloat" where
  "py_mul (Finite a) (Finite b) = Finite (a * b)"
| "py_mul NaN y = NaN"
| "py_mul x NaN = NaN"
| "py_mul (Finite a) PosInf = (if a = 0 then NaN else if 0 < a then PosInf else NegInf)"
| "py_mul (Finite a) NegInf = (if a = 0 then NaN else if 0 < a then NegInf else PosInf)"
| "py_mul PosInf (Finite b) = (if b = 0 then NaN else if 0 < b then PosInf else NegInf)"
| "py_mul NegInf (Finite b) = (if b = 0 then NaN else if 0 < b then NegInf else PosInf)"
| "py_mul PosInf PosInf = PosInf"
| "py_mul NegInf NegInf = PosInf"
| "py_mul PosInf NegInf = NegInf"
| "py_mul NegInf PosInf = NegInf"

text \<open>\<^verbatim>\<open>x < y\<close> on floats: false as soon as one side is NaN.\<close>

fun py_less :: "pyfloat \<Rightarrow> pyfloat \<Rightarrow> bool" where
  "py_less (Finite a) (Finite b) = (a < b)"
| "py_less NaN y = False"
| "py_less x NaN = False"
| "py_less NegInf NegInf = False"
| "py_less NegInf y = True"
| "py_less x PosInf = (x \<noteq> PosInf)"
| "py_less x y = False"

text \<open>\<^verbatim>\<open>min(a, b)\<close>: the first argument stays unless the second is smaller.\<close>

definition py_min :: "pyfloat \<Rightarrow> pyfloat \<Rightarrow> pyfloat" where
  "py_min a b = (if py_less b a then b else a)"

section \<open>Paths (\<^verbatim>\<open>posixpath\<close>)\<close>

text \<open>The functions of \<^verbatim>\<open>os.path\<close> as they are on POSIX systems, with \<^verbatim>\<open>/\<close> as
  the only separator.\<close>

definition join :: "string \<Rightarrow> string \<Rightarrow> string" where
  "join a b =
     (if startswith b ''/'' then b
      else if a = [] \<or> last a = CHR ''/'' then a @ b
      else a @ ''/'' @ b)"

definition basename :: "string \<Rightarrow> string" where
  "basename p = rev (takeWhile (\<lambda>c. c \<noteq> CHR ''/'') (rev p))"

definition dirname :: "string \<Rightarrow> string" where
  "dirname p =
     (let head = rev (dropWhile (\<lambda>c. c \<noteq> CHR ''/'') (rev p))
      in if head \<noteq> [] \<and> list_ex (\<lambda>c. c \<noteq> CHR ''/'') head
         then rev (dropWhile (\<lambda>c. c = CHR ''/'') (rev head))
         else head)"

text \<open>
  \<^verbatim>\<open>os.path.splitext\<close>: the extension starts at the last dot of the last component,
  unless that component has nothing but dots before it.
\<close>

definition splitext :: "string \<Rightarrow> string \<times> string" where
  "splitext p =
     (let name = basename p;
          ext = rev (takeWhile (\<lambda>c. c \<noteq> CHR ''.'') (rev name));
          stem = take (length name - length ext - 1) name
      in if CHR ''.'' \<in> set name \<and> list_ex (\<lambda>c. c \<noteq> CHR ''.'') stem
         then (take (length p - length ext - 1) p, CHR ''.'' # ext)
         else (p, []))"

text \<open>\<^verbatim>\<open>'/'.join(comps)\<close>\<close>

fun sep_join :: "string list \<Rightarrow> string" where
  "sep_join [] = []"
| "sep_join [c] = c"
| "sep_join (c # d # cs) = c @ ''/'' @ sep_join (d # cs)"

text \<open>The loop of \<^verbatim>\<open>normpath\<close> over the components.\<close>

fun norm_comps :: "bool \<Rightarrow> string list \<Rightarrow> string list \<Rightarrow> string list" where
  "norm_comps ini new [] = new"
| "norm_comps ini new (piece # comps) =
     (if piece = [] \<or> piece = ''.'' then norm_comps ini new comps
      else if piece \<noteq> ''..'' \<or> (\<not> ini \<and> new = []) \<or> (new \<noteq> [] \<and> last new = ''..'')
      then norm_comps ini (new @ [piece]) comps
      else if new \<noteq> [] then norm_comps ini (butlast new) comps
      else norm_comps ini new comps)"

definition normpath :: "string \<Rightarrow> string" where
  "normpath p =
     (if p = [] then ''.''
      else
        (let initial_slashes =
               (if startswith p ''/''
                then (if startswith p ''//'' \<and> \<not> startswith p ''///'' then 2 else 1)
                else (0::nat));
             comps = norm_comps (0 < initial_slashes) [] (split_on CHR ''/'' p);
             path = replicate initial_slashes CHR ''/'' @ sep_join comps
         in if path = [] then ''.'' else path))"

text \<open>\<^verbatim>\<open>abspath\<close>, with the working directory as an argument.\<close>

definition abspath :: "string \<Rightarrow> string \<Rightarrow> string" where
  "abspath cwd p = normpath (if startswith p ''/'' then p else join cwd p)"

fun common_prefix :: "'a list \<Rightarrow> 'a list \<Rightarrow> nat" where
  "common_prefix (x # xs) (y # ys) = (if x = y then Suc (common_prefix xs ys) else 0)"
| "common_prefix xs ys = 0"

text \<open>\<^verbatim>\<open>relpath(path, start)\<close>: an empty path raises \<^verbatim>\<open>ValueError\<close>.\<close>

definition relpath :: "string \<Rightarrow> string \<Rightarrow> string \<Rightarrow> exn + string" where
  "relpath cwd path start =
     (if path = [] then Inl ValueError
      else
        (let start_list = filter (\<lambda>x. x \<noteq> []) (split_on CHR ''/'' (abspath cwd start));
             path_list = filter (\<lambda>x. x \<noteq> []) (split_on CHR ''/'' (abspath cwd path));
             i = common_prefix start_list path_list;
             rel_list = replicate (length start_list - i) ''..'' @ drop i path_list
         in if rel_list = [] then Inr ''.'' else Inr (sep_join rel_list)))"

section \<open>The file system and the external tools\<close>

text \<open>
  A directory tree: a directory lists its entries by name. Only regular files and
  directories are modelled.
\<close>

datatype fsnode = File | Dir "(string \<times> fsnode) list"

text \<open>What \<^verbatim>\<open>subprocess.check_output\<close> of the probe does: it returns the output, or
  raises (\<^verbatim>\<open>CalledProcessError\<close> for an exit code that is not zero, \<^verbatim>\<open>OSError\<close>
  when the program cannot be started).\<close>

datatype probe_result = ProbeOutput string | ProbeRaises exn

text \<open>
  What \<^verbatim>\<open>subprocess.Popen\<close> of the encoder does: it raises, or it starts a process,
  which is given by the lines read from its standard output while \<^verbatim>\<open>poll()\<close> says
  that it runs, and by its return code. The process is taken to exit.
\<close>

datatype encoder_result = EncoderRaises exn | EncoderRun "string list" int

text \<open>
  Everything the program reads from outside: the working directory, the file system
  (\<open>lookup\<close> gives the node at a path), whether \<^verbatim>\<open>os.makedirs\<close> succeeds, the two
  tools, the readings of \<^verbatim>\<open>time.time()\<close> (\<open>clock 0\<close> at the start of a batch,
  \<open>clock (Suc k)\<close> after task \<open>k\<close>) and the cancel button (\<open>cancel_pressed k\<close>:
  the user interface thread has set the flag since the worker last read it, before the
  worker reads it for the \<open>k\<close>-th time, counting from zero).
\<close>

record env =
  cwd :: string
  lookup :: "string \<Rightarrow> fsnode option"
  makedirs_ok :: "string \<Rightarrow> bool"
  ffprobe :: "string list \<Rightarrow> probe_result"
  ffmpeg :: "string list \<Rightarrow> encoder_result"
  clock :: "nat \<Rightarrow> rat"
  cancel_pressed :: "nat \<Rightarrow> bool"

definition isdir :: "env \<Rightarrow> string \<Rightarrow> bool" where
  "isdir e p = (case lookup e p of Some (Dir _) \<Rightarrow> True | _ \<Rightarrow> False)"

definition path_exists :: "env \<Rightarrow> string \<Rightarrow> bool" where
  "path_exists e p = (lookup e p \<noteq> None)"

definition dir_names :: "(string \<times> fsnode) list \<Rightarrow> string list" where
  "dir_names es = map fst (filter (\<lambda>(n, x). x \<noteq> File) es)"

definition file_names :: "(string \<times> fsnode) list \<Rightarrow> string list" where
  "file_names es = map fst (filter (\<lambda>(n, x). x = File) es)"

text \<open>
  \<^verbatim>\<open>os.walk(dirpath)\<close>, top down: the triple of a directory, then the walks of its
  subdirectories. On something that is not a directory it yields nothing.
\<close>

fun os_walk :: "string \<Rightarrow> fsnode \<Rightarrow> (string \<times> string list \<times> string list) list"
  and walk_entries :: "string \<Rightarrow> (string \<times> fsnode) list \<Rightarrow>
    (string \<times> string list \<times> string list) list"
where
  "os_walk dirpath File = []"
| "os_walk dirpath (Dir es) = (dirpath, dir_names es, file_names es) # walk_entries dirpath es"
| "walk_entries dirpath [] = []"
| "walk_entries dirpath ((n, x) # es) = os_walk (join dirpath n) x @ walk_entries dirpath es"

section \<open>The application\<close>

definition VIDEO_EXTENSIONS :: "string list" where
  "VIDEO_EXTENSIONS =
     [''.mp4'', ''.mov'', ''.avi'', ''.mkv'', ''.wmv'', ''.flv'', ''.webm'', ''.m4v'', ''.3gp'']"

definition OUTPUT_FORMATS :: "string list" where
  "OUTPUT_FORMATS = [''mp4'', ''mkv'', ''webm'']"

definition QUALITY_LEVELS :: "(string \<times> string) list" where
  "QUALITY_LEVELS =
     [(''High (larger file)'', ''18''), (''Medium'', ''23''),
      (''Low (smaller file)'', ''28''), (''Custom'', ''custom'')]"

definition RESOLUTIONS :: "string list" where
  "RESOLUTIONS =
     [''Original'', ''4K (3840x2160)'', ''1080p (1920x1080)'', ''720p (1280x720)'',
      ''480p (854x480)'']"

text \<open>The fields of \<^verbatim>\<open>VideoCompressorApp\<close> that the batch logic reads or writes.\<close>

record app =
  input_dir :: string
  output_dir :: string
  output_format :: string
  quality_preset :: string
  custom_crf :: string
  resolution :: string
  is_processing :: bool
  cancel_requested :: bool
  video_files :: "string list"

text \<open>The error boxes of \<^verbatim>\<open>validate_inputs\<close>, one constructor for each.\<close>

datatype message = BadInputDir | NoOutputDir | MakeOutputDirFailed | NoVideoFiles
  | CrfOutOfRange | CrfNotNumber

text \<open>The specification's names for them; its \<open>NotADirectory\<close> of the file discoverer
  is the \<open>InvalidDirectory\<close> of its error taxonomy.\<close>

datatype error_kind = InvalidDirectory | NoVideoFilesFound | InvalidQuality

fun kind_of :: "message \<Rightarrow> error_kind" where
  "kind_of BadInputDir = InvalidDirectory"
| "kind_of NoOutputDir = InvalidDirectory"
| "kind_of MakeOutputDirFailed = InvalidDirectory"
| "kind_of NoVideoFiles = NoVideoFilesFound"
| "kind_of CrfOutOfRange = InvalidQuality"
| "kind_of CrfNotNumber = InvalidQuality"

subsection \<open>\<^verbatim>\<open>find_video_files\<close>\<close>

definition is_video :: "string \<Rightarrow> bool" where
  "is_video file \<longleftrightarrow> lower (snd (splitext file)) \<in> set VIDEO_EXTENSIONS"

definition walk_path :: "env \<Rightarrow> string \<Rightarrow> (string \<times> string list \<times> string list) list" where
  "walk_path e directory =
     (case lookup e directory of None \<Rightarrow> [] | Some node \<Rightarrow> os_walk directory node)"

definition find_video_files :: "env \<Rightarrow> string \<Rightarrow> string list" where
  "find_video_files e directory =
     sort (concat (map (\<lambda>(dirpath, dirs, files). map (join dirpath) (filter is_video files))
                       (walk_path e directory)))"

subsection \<open>\<^verbatim>\<open>validate_inputs\<close>\<close>

definition validate_inputs :: "env \<Rightarrow> app \<Rightarrow> app \<times> (message + unit)" where
  "validate_inputs e s =
     (if input_dir s = [] \<or> \<not> isdir e (input_dir s) then (s, Inl BadInputDir)
      else if output_dir s = [] then (s, Inl NoOutputDir)
      else if \<not> path_exists e (output_dir s) \<and> \<not> makedirs_ok e (output_dir s)
      then (s, Inl MakeOutputDirFailed)
      else
        (let s' = s\<lparr>video_files := find_video_files e (input_dir s)\<rparr>
         in if video_files s' = [] then (s', Inl NoVideoFiles)
            else if quality_preset s' = ''Custom'' then
              (case py_int (custom_crf s') of
                 None \<Rightarrow> (s', Inl CrfNotNumber)
               | Some crf_value \<Rightarrow>
                   if \<not> (0 \<le> crf_value \<and> crf_value \<le> 51) then (s', Inl CrfOutOfRange)
                   else (s', Inr ()))
            else (s', Inr ())))"

subsection \<open>\<^verbatim>\<open>get_ffmpeg_command\<close>\<close>

text \<open>
  \<^verbatim>\<open>re.search(r'(\d+x\d+)', s)\<close>: the leftmost place where a run of digits, an
  \<^verbatim>\<open>x\<close> and a run of digits follow one another; both runs are taken whole.
\<close>

definition re_match_here :: "string \<Rightarrow> string option" where
  "re_match_here s =
     (let w = takeWhile is_digit s; r = dropWhile is_digit s
      in if w = [] then None
         else (case r of
                 [] \<Rightarrow> None
               | c # cs \<Rightarrow>
                   if c = CHR ''x'' \<and> takeWhile is_digit cs \<noteq> []
                   then Some (w @ CHR ''x'' # takeWhile is_digit cs)
                   else None))"

fun re_search :: "string \<Rightarrow> string option" where
  "re_search [] = None"
| "re_search (c # cs) =
     (case re_match_here (c # cs) of Some m \<Rightarrow> Some m | None \<Rightarrow> re_search cs)"

definition scale_args :: "string \<Rightarrow> string list" where
  "scale_args res =
     (if res \<noteq> ''Original''
      then (case re_search res of None \<Rightarrow> [] | Some m \<Rightarrow> [''-vf'', ''scale='' @ m])
      else [])"

definition codec_args :: "string \<Rightarrow> string \<Rightarrow> string list" where
  "codec_args fmt crf =
     (if fmt = ''mp4'' then [''-c:v'', ''libx264'', ''-crf'', crf, ''-preset'', ''medium'']
      else if fmt = ''webm'' then [''-c:v'', ''libvpx-vp9'', ''-crf'', crf, ''-b:v'', ''0'']
      else if fmt = ''mkv'' then [''-c:v'', ''libx264'', ''-crf'', crf, ''-preset'', ''medium'']
      else [])"

text \<open>A preset that is no key of \<^verbatim>\<open>QUALITY_LEVELS\<close> raises \<^verbatim>\<open>KeyError\<close>.\<close>

definition get_ffmpeg_command :: "app \<Rightarrow> string \<Rightarrow> string \<Rightarrow> exn + string list" where
  "get_ffmpeg_command s input_file output_file =
     (case (if quality_preset s = ''Custom'' then Some (custom_crf s)
            else map_of QUALITY_LEVELS (quality_preset s)) of
        None \<Rightarrow> Inl KeyError
      | Some crf \<Rightarrow>
          Inr ([''ffmpeg'', ''-i'', input_file, ''-y'']
               @ scale_args (resolution s)
               @ codec_args (output_format s) crf
               @ [''-c:a'', ''aac'', ''-b:a'', ''128k'']
               @ [output_file]))"

text \<open>\<^verbatim>\<open>list.insert(i, x)\<close> for \<open>i \<ge> 0\<close>\<close>

definition list_insert :: "nat \<Rightarrow> 'a \<Rightarrow> 'a list \<Rightarrow> 'a list" where
  "list_insert i x xs = take i xs @ x # drop i xs"

subsection \<open>\<^verbatim>\<open>compress_video\<close>\<close>

text \<open>
  What the program does to the outside, in order: directories made, tools run, and the
  values it sets on the widgets (directly or through the update queue).
\<close>

datatype status_text = Compressing string | ErrorCompressing string | ErrorRaised exn
  | CancelledText | CompletedWithFailures nat | CompletedOk

text \<open>What is written into the label of the time remaining: \<open>Seconds n\<close> stands
  for \<^verbatim>\<open>str(timedelta(seconds=n))\<close>, \<open>Zeros\<close> for the text \<^verbatim>\<open>00:00:00\<close> of the
  final update.\<close>

datatype time_label = Seconds int | Zeros

datatype event =
    Makedirs string
  | RunProbe "string list"
  | RunEncoder "string list"
  | CurrentFile string
  | ProgressText nat nat
  | Status status_text
  | FileProgress pyfloat
  | OverallProgress rat
  | TimeRemaining time_label
  | ErrorDialog exn
  | UiState bool

definition duration_cmd :: "string \<Rightarrow> string list" where
  "duration_cmd input_file =
     [''ffprobe'', ''-v'', ''error'', ''-show_entries'', ''format=duration'',
      ''-of'', ''default=noprint_wrappers=1:nokey=1'', input_file]"

text \<open>
  The body of the \<^verbatim>\<open>try\<close> in the progress loop, for a line that starts with
  \<^verbatim>\<open>out_time_ms=\<close>: the percentage to show, if any, or the exception raised.
\<close>

definition progress_of_line :: "pyfloat \<Rightarrow> string \<Rightarrow> exn + pyfloat option" where
  "progress_of_line duration output_line =
     (case split_on CHR ''='' output_line of
        _ # v # _ \<Rightarrow>
          (case py_float v of
             None \<Rightarrow> Inl ValueError
           | Some t \<Rightarrow>
               (case py_div t (Finite 1000000) of
                  Inl x \<Rightarrow> Inl x
                | Inr current_time \<Rightarrow>
                    if py_less (Finite 0) duration then
                      (case py_div current_time duration of
                         Inl x \<Rightarrow> Inl x
                       | Inr q \<Rightarrow> Inr (Some (py_min (Finite 100) (py_mul q (Finite 100)))))
                    else Inr None))
      | _ \<Rightarrow> Inl IndexError)"

text \<open>One turn of the loop: the exceptions of the body are swallowed.\<close>

definition handle_line :: "pyfloat \<Rightarrow> string \<Rightarrow> event list" where
  "handle_line duration raw =
     (let output_line = strip raw
      in if startswith output_line ''out_time_ms='' then
           (case progress_of_line duration output_line of
              Inr (Some progress) \<Rightarrow> [FileProgress progress]
            | _ \<Rightarrow> [])
         else [])"

text \<open>The two \<^verbatim>\<open>cmd.insert\<close> calls that switch the encoder's telemetry on.\<close>

definition progress_command :: "string list \<Rightarrow> string list" where
  "progress_command cmd0 = list_insert 2 ''pipe:1'' (list_insert 1 ''-progress'' cmd0)"

definition probed_duration :: "string \<Rightarrow> pyfloat" where
  "probed_duration duration_output =
     (case py_float (strip duration_output) of None \<Rightarrow> Finite 0 | Some d \<Rightarrow> d)"

definition compress_video :: "env \<Rightarrow> app \<Rightarrow> string \<Rightarrow> string \<Rightarrow> bool \<times> event list" where
  "compress_video e s input_file output_file =
     (case ffprobe e (duration_cmd input_file) of
        ProbeRaises x \<Rightarrow>
          (False, [RunProbe (duration_cmd input_file), Status (ErrorRaised x)])
      | ProbeOutput duration_output \<Rightarrow>
          (let duration = probed_duration duration_output
           in case get_ffmpeg_command s input_file output_file of
                Inl x \<Rightarrow> (False, [RunProbe (duration_cmd input_file), Status (ErrorRaised x)])
              | Inr cmd0 \<Rightarrow>
                  (let cmd = progress_command cmd0
                   in case ffmpeg e cmd of
                        EncoderRaises x \<Rightarrow>
                          (False, [RunProbe (duration_cmd input_file),
                                   Status (ErrorRaised x)])
                      | EncoderRun lines returncode \<Rightarrow>
                          (let shown = concat (map (handle_line duration) lines)
                           in if returncode \<noteq> 0
                              then (False, [RunProbe (duration_cmd input_file), RunEncoder cmd]
                                     @ shown
                                     @ [Status (ErrorCompressing (basename input_file))])
                              else (True, [RunProbe (duration_cmd input_file), RunEncoder cmd]
                                     @ shown @ [FileProgress (Finite 100)])))))"

subsection \<open>\<^verbatim>\<open>process_video_files\<close>\<close>

text \<open>The destination of a source file: its path relative to the input directory,
  under the output directory, with the extension replaced by the output format.\<close>

definition output_path :: "env \<Rightarrow> app \<Rightarrow> string \<Rightarrow> exn + string" where
  "output_path e s input_file =
     (case relpath (cwd e) input_file (input_dir s) of
        Inl x \<Rightarrow> Inl x
      | Inr rel_path \<Rightarrow>
          Inr (join (output_dir s) (fst (splitext rel_path) @ ''.'' @ output_format s)))"

text \<open>The variables of the loop, the cancel flag as the worker last read it, and what
  has been done so far.\<close>

record loop_state =
  processed_files :: nat
  failed_files :: nat
  cancel_seen :: bool
  events :: "event list"

definition estimate :: "env \<Rightarrow> nat \<Rightarrow> nat \<Rightarrow> nat \<Rightarrow> rat" where
  "estimate e k total_files processed =
     (let elapsed_time = clock e (Suc k) - clock e 0;
          avg_time_per_file = elapsed_time / of_nat processed;
          remaining_files = int total_files - int processed
      in avg_time_per_file * of_int remaining_files)"

text \<open>
  The body of the loop for a file whose destination is \<open>output_file\<close>, once the
  directory of the destination is made: the widgets are set, the video is compressed,
  the counters and the estimate are brought up to date.
\<close>

definition run_task ::
  "env \<Rightarrow> app \<Rightarrow> nat \<Rightarrow> string \<Rightarrow> string \<Rightarrow> nat \<Rightarrow> loop_state \<Rightarrow> loop_state"
where
  "run_task e s total_files input_file output_file k st =
     (let filename = basename input_file;
          before = [Makedirs (dirname output_file), CurrentFile filename,
                    ProgressText (processed_files st) total_files,
                    Status (Compressing filename), FileProgress (Finite 0)];
          (result, shown) = compress_video e s input_file output_file;
          processed = (if result then processed_files st + 1 else processed_files st);
          failed = (if result then failed_files st else failed_files st + 1);
          after = OverallProgress (of_nat processed / of_nat total_files * 100)
                  # (if 0 < processed
                     then [TimeRemaining
                             (Seconds (py_trunc (estimate e k total_files processed)))]
                     else [])
      in st\<lparr>processed_files := processed, failed_files := failed,
            events := events st @ before @ shown @ after\<rparr>)"

text \<open>
  The \<^verbatim>\<open>for\<close> loop over \<^verbatim>\<open>self.video_files\<close>; \<open>k\<close> counts the files taken so far.
  The flag is read at the top of each turn. The result is the exception that left the
  loop, if any, and the state reached.
\<close>

fun task_loop ::
  "env \<Rightarrow> app \<Rightarrow> nat \<Rightarrow> string list \<Rightarrow> nat \<Rightarrow> loop_state \<Rightarrow> exn option \<times> loop_state"
where
  "task_loop e s total_files [] k st = (None, st)"
| "task_loop e s total_files (input_file # rest) k st =
     (if cancel_seen st \<or> cancel_pressed e k then (None, st\<lparr>cancel_seen := True\<rparr>)
      else
        (case output_path e s input_file of
           Inl x \<Rightarrow> (Some x, st)
         | Inr output_file \<Rightarrow>
             if \<not> makedirs_ok e (dirname output_file) then (Some OSError, st)
             else task_loop e s total_files rest (Suc k)
                    (run_task e s total_files input_file output_file k st)))"

definition initial_state :: "app \<Rightarrow> loop_state" where
  "initial_state s =
     \<lparr>processed_files = 0, failed_files = 0, cancel_seen = cancel_requested s, events = []\<rparr>"

datatype outcome = Completed | Cancelled | Failed exn

record batch_result =
  outcome :: outcome
  n_processed :: nat
  n_failed :: nat
  trace :: "event list"

text \<open>The whole worker: the loop, the final update, the handler and the
  \<^verbatim>\<open>finally\<close> clause. The flag is read once more after the loop.\<close>

definition process_video_files :: "env \<Rightarrow> app \<Rightarrow> app \<times> batch_result" where
  "process_video_files e s =
     (let total_files = length (video_files s)
      in case task_loop e s total_files (video_files s) 0 (initial_state s) of
           (Some x, st) \<Rightarrow>
             (s\<lparr>is_processing := False, cancel_requested := cancel_seen st\<rparr>,
              \<lparr>outcome = Failed x, n_processed = processed_files st,
               n_failed = failed_files st,
               trace = events st @ [Status (ErrorRaised x), ErrorDialog x, UiState False]\<rparr>)
         | (None, st) \<Rightarrow>
             if cancel_seen st \<or> cancel_pressed e total_files
             then (s\<lparr>is_processing := False, cancel_requested := True\<rparr>,
                   \<lparr>outcome = Cancelled, n_processed = processed_files st,
                    n_failed = failed_files st,
                    trace = events st @ [Status CancelledText, UiState False]\<rparr>)
             else (s\<lparr>is_processing := False, cancel_requested := False\<rparr>,
                   \<lparr>outcome = Completed, n_processed = processed_files st,
                    n_failed = failed_files st,
                    trace = events st
                      @ [ProgressText (processed_files st) total_files,
                         Status (if 0 < failed_files st
                                 then CompletedWithFailures (failed_files st)
                                 else CompletedOk),
                         TimeRemaining Zeros, UiState False]\<rparr>))"

subsection \<open>\<^verbatim>\<open>start_compression\<close> and \<^verbatim>\<open>cancel_compression\<close>\<close>

text \<open>The cancel button: in \<open>process_video_files\<close> a call of it by the user
  interface thread shows as \<open>cancel_pressed\<close>.\<close>

definition cancel_compression :: "app \<Rightarrow> app" where
  "cancel_compression s = (if \<not> is_processing s then s else s\<lparr>cancel_requested := True\<rparr>)"



section \<open>Notions used to state the properties\<close>

text \<open>\<open>file_under x d f p\<close>: below the node \<open>x\<close>, which has the path \<open>d\<close>, there is
  a file named \<open>f\<close>, at the path \<open>p\<close>.\<close>

inductive file_under :: "fsnode \<Rightarrow> string \<Rightarrow> string \<Rightarrow> string \<Rightarrow> bool" where
  here: "(f, File) \<in> set es \<Longrightarrow> file_under (Dir es) d f (join d f)"
| below: "(n, x) \<in> set es \<Longrightarrow> file_under x (join d n) f p \<Longrightarrow> file_under (Dir es) d f p"

text \<open>The source files whose probe was run, in the order of the runs: the tasks that
  were started.\<close>

fun started :: "event list \<Rightarrow> string list" where
  "started [] = []"
| "started (RunProbe cmd # evs) = last cmd # started evs"
| "started (ev # evs) = started evs"

text \<open>The encoder is never run on a destination whose directory has not been made
  before; \<open>made\<close> holds the directories made so far.\<close>

fun dirs_made_first :: "string list \<Rightarrow> event list \<Rightarrow> bool" where
  "dirs_made_first made [] = True"
| "dirs_made_first made (Makedirs d # evs) = dirs_made_first (d # made) evs"
| "dirs_made_first made (RunEncoder cmd # evs) =
     (dirname (last cmd) \<in> set made \<and> dirs_made_first made evs)"
| "dirs_made_first made (ev # evs) = dirs_made_first made evs"

text \<open>A task can be started: its destination is defined and the directory of the
  destination can be made.\<close>

definition startable :: "env \<Rightarrow> app \<Rightarrow> string \<Rightarrow> bool" where
  "startable e s input_file =
     (case output_path e s input_file of
        Inl x \<Rightarrow> False
      | Inr output_file \<Rightarrow> makedirs_ok e (dirname output_file))"

text \<open>What \<^verbatim>\<open>compress_video\<close> returns for a source file.\<close>

definition task_succeeds :: "env \<Rightarrow> app \<Rightarrow> string \<Rightarrow> bool" where
  "task_succeeds e s input_file =
     (case output_path e s input_file of
        Inl x \<Rightarrow> False
      | Inr output_file \<Rightarrow> fst (compress_video e s input_file output_file))"

text \<open>The state of the loop at the task boundary after the files \<open>xs\<close>, a prefix of
  the list of the batch.\<close>

definition state_after :: "env \<Rightarrow> app \<Rightarrow> string list \<Rightarrow> loop_state" where
  "state_after e s xs =
     snd (task_loop e s (length (video_files s)) xs 0 (initial_state s))"

section \<open>A sample run\<close>

text \<open>
  An input directory with three videos and one other file; the probe reports ten
  seconds for each video; the encoder sends some telemetry and exits with code 1 on the
  second video, with code 0 on the others; every task takes ten seconds and nobody
  presses the cancel button.
\<close>

definition demo_tree :: fsnode where
  "demo_tree =
     Dir [(''a.mp4'', File), (''b.MOV'', File),
          (''sub'', Dir [(''c.mkv'', File), (''notes.txt'', File)])]"

definition demo_env :: env where
  "demo_env =
     \<lparr>cwd = ''/home'',
      lookup = (\<lambda>p. if p = ''/in'' then Some demo_tree
                    else if p = ''/out'' then Some (Dir []) else None),
      makedirs_ok = (\<lambda>d. True),
      ffprobe = (\<lambda>cmd. ProbeOutput (''10.0'' @ [CHR 0x0A])),
      ffmpeg = (\<lambda>cmd. EncoderRun [''frame=100'', ''out_time_ms=5000000'', ''progress=end'']
                           (if last cmd = ''/out/b.mp4'' then 1 else 0)),
      clock = (\<lambda>k. 10 * of_nat k),
      cancel_pressed = (\<lambda>k. False)\<rparr>"

definition demo_app :: app where
  "demo_app =
     \<lparr>input_dir = ''/in'', output_dir = ''/out'', output_format = ''mp4'',
      quality_preset = ''Medium'', custom_crf = ''23'', resolution = ''720p (1280x720)'',
      is_processing = False, cancel_requested = False, video_files = []\<rparr>"

definition demo_files :: "string list" where
  "demo_files = [''/in/a.mp4'', ''/in/b.MOV'', ''/in/sub/c.mkv'']"

text \<open>The application once validation has found the three videos, and with a fourth
  file in the list.\<close>

definition demo_batch :: app where
  "demo_batch = demo_app\<lparr>video_files := demo_files\<rparr>"

definition demo_batch4 :: app where
  "demo_batch4 = demo_app\<lparr>video_files := demo_files @ [''/in/d.avi'']\<rparr>"

text \<open>Variants of the outside: the probe cannot be run; the probe prints no number;
  the input directory holds two videos that differ in their extension only.\<close>

definition demo_env_no_probe :: env where
  "demo_env_no_probe = demo_env\<lparr>ffprobe := (\<lambda>cmd. ProbeRaises CalledProcessError)\<rparr>"

definition demo_env_no_duration :: env where
  "demo_env_no_duration = demo_env\<lparr>ffprobe := (\<lambda>cmd. ProbeOutput ''N/A'')\<rparr>"

definition demo_env_twins :: env where
  "demo_env_twins =
     demo_env\<lparr>lookup := (\<lambda>p. if p = ''/in''
                              then Some (Dir [(''a.mp4'', File), (''a.mov'', File)])
                              else None)\<rparr>"

section \<open>Decimal numerals are read back\<close>

lemma is_digit_char_of: "(m::nat) < 10 \<Longrightarrow> is_digit (char_of (48 + m))"
  by (simp add: is_digit_def)

lemma digit_val_char_of: "m < 10 \<Longrightarrow> digit_val (char_of (48 + m)) = m"
  by (simp add: digit_val_def)

lemma not_digit_consts:
  "\<not> is_digit CHR ''_''" "\<not> is_digit CHR ''-''" "\<not> is_digit CHR ''+''"
  "\<not> is_digit CHR ''i''" "\<not> is_digit CHR ''n''" "\<not> is_digit CHR ''.''"
  "\<not> is_digit CHR ''e''" "\<not> is_digit CHR ''E''"
  by (simp_all add: is_digit_def)

lemma digit_not_space: "is_digit c \<Longrightarrow> \<not> is_space c"
  by (auto simp: is_digit_def is_space_def)

lemma lower_digit: "is_digit c \<Longrightarrow> lower_char c = c"
  by (simp add: is_digit_def lower_char_def)

lemma digit_run_all:
  "list_all is_digit ds \<Longrightarrow> snd (digit_run acc k ds) = (k + length ds, [])"
  by (induction ds arbitrary: acc k) auto

lemma digit_run_snoc:
  "list_all is_digit ds \<Longrightarrow> is_digit d \<Longrightarrow>
   fst (digit_run acc k (ds @ [d])) = 10 * fst (digit_run acc k ds) + digit_val d"
  by (induction ds arbitrary: acc k) auto

lemma digits_of_all: "list_all is_digit (digits_of n)"
proof (induction n rule: digits_of.induct)
  case (1 n)
  show ?case
  proof (cases "n < 10")
    case True
    then show ?thesis by (subst digits_of.simps) (simp add: is_digit_char_of)
  next
    case False
    with 1 show ?thesis by (subst digits_of.simps) (simp add: is_digit_char_of)
  qed
qed

lemma digits_of_value: "fst (digit_run 0 0 (digits_of n)) = n"
proof (induction n rule: digits_of.induct)
  case (1 n)
  show ?case
  proof (cases "n < 10")
    case True
    then show ?thesis
      by (subst digits_of.simps) (simp add: is_digit_char_of digit_val_char_of)
  next
    case False
    with 1 have ih: "fst (digit_run 0 0 (digits_of (n div 10))) = n div 10" by simp
    have d: "is_digit (char_of (48 + n mod 10))" by (rule is_digit_char_of) simp
    have "fst (digit_run 0 0 (digits_of (n div 10) @ [char_of (48 + n mod 10)]))
          = 10 * (n div 10) + n mod 10"
      by (simp only: digit_run_snoc [OF digits_of_all d] ih digit_val_char_of [of "n mod 10"])
    with False show ?thesis
      by (subst digits_of.simps) simp
  qed
qed

lemma digits_of_nonempty: "digits_of n \<noteq> []"
  by (subst digits_of.simps) simp

lemma digit_run_digits_of:
  "digit_run 0 0 (digits_of n) = (n, length (digits_of n), [])"
  using digits_of_value [of n] digit_run_all [OF digits_of_all, of 0 0 n]
  by (cases "digit_run 0 0 (digits_of n)") simp

lemma dropWhile_hd_id: "xs \<noteq> [] \<Longrightarrow> \<not> P (hd xs) \<Longrightarrow> dropWhile P xs = xs"
  by (cases xs) simp_all

lemma strip_id:
  "s \<noteq> [] \<Longrightarrow> \<not> is_space (hd s) \<Longrightarrow> \<not> is_space (last s) \<Longrightarrow> strip s = s"
  by (simp add: strip_def dropWhile_hd_id hd_rev)

lemma hd_digits_of: "is_digit (hd (digits_of n))"
  using digits_of_all [of n] digits_of_nonempty [of n] by (cases "digits_of n") simp_all

lemma last_digits_of: "is_digit (last (digits_of n))"
  using digits_of_all [of n] digits_of_nonempty [of n]
  by (cases "digits_of n" rule: rev_cases) simp_all

lemma str_int_nonempty: "str_int i \<noteq> []"
  by (simp add: str_int_def digits_of_nonempty)

lemma minus_not_space: "\<not> is_space CHR ''-''"
  by (simp add: is_space_def)

lemma strip_str_int: "strip (str_int i) = str_int i"
proof (rule strip_id)
  show "str_int i \<noteq> []" by (rule str_int_nonempty)
  show "\<not> is_space (hd (str_int i))"
    using digit_not_space [OF hd_digits_of [of "nat i"]]
    by (simp add: str_int_def minus_not_space)
  show "\<not> is_space (last (str_int i))"
    using digit_not_space [OF last_digits_of [of "nat i"]]
      digit_not_space [OF last_digits_of [of "nat (- i)"]]
    by (simp add: str_int_def digits_of_nonempty)
qed

lemma take_sign_digits: "take_sign (digits_of n) = (False, digits_of n)"
proof (cases "digits_of n")
  case Nil
  then show ?thesis by simp
next
  case (Cons c cs)
  with hd_digits_of [of n] have "is_digit c" by simp
  then have "c \<noteq> CHR ''-''" "c \<noteq> CHR ''+''"
    using not_digit_consts by auto
  with Cons show ?thesis by simp
qed

lemma take_sign_str_int:
  "take_sign (str_int i) = (i < 0, digits_of (nat \<bar>i\<bar>))"
  by (simp add: str_int_def take_sign_digits abs_if)

lemma py_int_str_int: "py_int (str_int i) = Some i"
  by (simp add: py_int_def strip_str_int take_sign_str_int digit_run_digits_of
      digits_of_nonempty)

lemma lower_digits: "list_all is_digit ds \<Longrightarrow> lower ds = ds"
  by (induction ds) (simp_all add: lower_def lower_digit)

lemma digits_not_word:
  "digits_of n \<noteq> ''inf''" "digits_of n \<noteq> ''infinity''" "digits_of n \<noteq> ''nan''"
  using hd_digits_of [of n] not_digit_consts by auto

lemma py_float_str_int: "py_float (str_int i) = Some (Finite (of_int i))"
  by (simp add: py_float_def strip_str_int take_sign_str_int digit_run_digits_of
      digits_of_nonempty lower_digits digits_of_all digits_not_word float_exponent_def
      scale10_def signed_def)

lemma digit_chars:
  "char_of (48::nat) = CHR ''0''" "char_of (49::nat) = CHR ''1''" "char_of (50::nat) = CHR ''2''"
  "char_of (51::nat) = CHR ''3''" "char_of (52::nat) = CHR ''4''" "char_of (53::nat) = CHR ''5''"
  "char_of (54::nat) = CHR ''6''" "char_of (55::nat) = CHR ''7''" "char_of (56::nat) = CHR ''8''"
  "char_of (57::nat) = CHR ''9''"
  by (simp_all add: char_of_eq_iff)

section \<open>The progress parser\<close>

lemma split_on_absent: "c \<notin> set s \<Longrightarrow> split_on c s = [s]"
  by (induction s) auto

lemma equals_not_digit: "\<not> is_digit CHR ''=''"
  by (simp add: is_digit_def)

lemma digits_no_equals: "list_all is_digit ds \<Longrightarrow> CHR ''='' \<notin> set ds"
  using equals_not_digit by (auto simp: list_all_iff)

lemma str_int_no_equals: "CHR ''='' \<notin> set (str_int i)"
  using digits_no_equals [OF digits_of_all] by (simp add: str_int_def)

lemma last_str_int: "\<not> is_space (last (str_int i))"
  using digit_not_space [OF last_digits_of [of "nat i"]]
    digit_not_space [OF last_digits_of [of "nat (- i)"]]
  by (simp add: str_int_def digits_of_nonempty)

lemma strip_padded:
  assumes "s \<noteq> []" "\<not> is_space (hd s)" "\<not> is_space (last s)" "list_all is_space pad"
  shows "strip (s @ pad) = s"
proof -
  have a: "dropWhile is_space (s @ pad) = s @ pad"
    using assms(1,2) by (cases s) simp_all
  have b: "dropWhile is_space (rev pad @ rev s) = dropWhile is_space (rev s)"
    using assms(4) by (intro dropWhile_append2) (simp add: list_all_iff)
  have c: "dropWhile is_space (rev s) = rev s"
    using assms(1,3) by (simp add: dropWhile_hd_id hd_rev)
  show ?thesis by (simp add: strip_def a b c)
qed

lemma strip_telemetry:
  "list_all is_space pad \<Longrightarrow>
   strip (''out_time_ms='' @ str_int n @ pad) = ''out_time_ms='' @ str_int n"
  using strip_padded [of "''out_time_ms='' @ str_int n" pad] last_str_int [of n]
  by (simp add: is_space_def str_int_nonempty)

lemma split_telemetry:
  "split_on CHR ''='' (''out_time_ms='' @ str_int n) = [''out_time_ms'', str_int n]"
  by (simp add: split_on_absent [OF str_int_no_equals])

lemma py_min_finite: "py_min (Finite a) (Finite b) = Finite (min a b)"
  by (simp add: py_min_def min_def)

lemma handle_line_stripped:
  "strip raw = l \<Longrightarrow> startswith l ''out_time_ms='' \<Longrightarrow>
   handle_line d raw =
     (case progress_of_line d l of Inr (Some p) \<Rightarrow> [FileProgress p] | _ \<Rightarrow> [])"
  by (simp add: handle_line_def)

lemma progress_of_line_value:
  "split_on CHR ''='' l = [k, v] \<Longrightarrow> py_float v = Some (Finite t) \<Longrightarrow> 0 < d \<Longrightarrow>
   progress_of_line (Finite d) l = Inr (Some (Finite (min 100 (100 * (t / 1000000) / d))))"
  by (simp add: progress_of_line_def py_min_finite mult.commute)

lemma startswith_append: "startswith (p @ s) p"
  by (induction p) simp_all

text \<open>
  C1. A line \<^verbatim>\<open>out_time_ms=<integer>\<close>, read with any white space after it, while
  the probed duration is a positive number \<open>d\<close> of seconds, makes the loop show the
  percentage \<open>min(100, 100 * (integer / 1000000) / d)\<close>, which is at most 100.
\<close>

theorem progress_percentage:
  assumes "0 < d" and "list_all is_space pad"
  shows "handle_line (Finite d) (''out_time_ms='' @ str_int n @ pad) =
           [FileProgress (Finite (min 100 (100 * (of_int n / 1000000) / d)))]"
proof -
  have "handle_line (Finite d) (''out_time_ms='' @ str_int n @ pad) =
          (case progress_of_line (Finite d) (''out_time_ms='' @ str_int n) of
             Inr (Some p) \<Rightarrow> [FileProgress p] | _ \<Rightarrow> [])"
    by (rule handle_line_stripped [OF strip_telemetry [OF assms(2)] startswith_append])
  also have "progress_of_line (Finite d) (''out_time_ms='' @ str_int n) =
          Inr (Some (Finite (min 100 (100 * (of_int n / 1000000) / d))))"
    by (rule progress_of_line_value [OF split_telemetry py_float_str_int assms(1)])
  finally show ?thesis by simp
qed

theorem progress_percentage_witness:
  "(0::rat) < 10 \<and> list_all is_space []
   \<and> handle_line (Finite 10) ''out_time_ms=5000000'' = [FileProgress (Finite 50)]
   \<and> handle_line (Finite 10) ''out_time_ms=50000000'' = [FileProgress (Finite 100)]"
  using progress_percentage [of 10 "[]" 5000000] progress_percentage [of 10 "[]" 50000000]
  by (simp add: str_int_def digits_of.simps digit_chars)

lemma py_div_guarded: "py_less (Finite 0) d \<Longrightarrow> py_div t d \<noteq> Inl x"
  by (cases d; cases t) simp_all

lemma progress_of_line_no_zero_division:
  "progress_of_line duration l \<noteq> Inl ZeroDivisionError"
  by (auto simp: progress_of_line_def py_div_guarded
      split: list.splits option.splits sum.splits pyfloat.splits)

lemma progress_of_line_unknown:
  "\<not> py_less (Finite 0) duration \<Longrightarrow> progress_of_line duration l \<noteq> Inr (Some p)"
  by (auto simp: progress_of_line_def split: list.splits option.splits sum.splits)

lemma handle_line_unknown:
  "\<not> py_less (Finite 0) duration \<Longrightarrow> handle_line duration raw = []"
  using progress_of_line_unknown [of duration "strip raw"]
  by (auto simp: handle_line_def Let_def split: sum.splits option.splits)

text \<open>
  C10. While the probed duration is zero, no line of the telemetry makes the loop show a
  percentage, and the body of the loop never raises \<^verbatim>\<open>ZeroDivisionError\<close>: the
  division by the duration stands behind the test \<^verbatim>\<open>duration > 0\<close>. (The division
  cannot raise for any other duration either.)
\<close>

theorem unknown_duration_no_division:
  "concat (map (handle_line (Finite 0)) lines) = []
   \<and> progress_of_line (Finite 0) l \<noteq> Inl ZeroDivisionError
   \<and> progress_of_line (Finite 0) l \<noteq> Inr (Some p)
   \<and> progress_of_line duration l \<noteq> Inl ZeroDivisionError"
  using progress_of_line_no_zero_division progress_of_line_unknown [of "Finite 0" l p]
  by (simp add: handle_line_unknown)

theorem unknown_duration_no_division_witness:
  "concat (map (handle_line (Finite 0)) [''out_time_ms=5000000'', ''out_time_ms=0'']) = []
   \<and> progress_of_line (Finite 0) ''out_time_ms=5000000'' \<noteq> Inl ZeroDivisionError"
  using unknown_duration_no_division
    [of "[''out_time_ms=5000000'', ''out_time_ms=0'']" "''out_time_ms=5000000''"]
  by simp

section \<open>The sample run, evaluated\<close>

lemma demo_walk:
  "walk_path demo_env ''/in'' =
     [(''/in'', [''sub''], [''a.mp4'', ''b.MOV'']), (''/in/sub'', [], [''c.mkv'', ''notes.txt''])]"
  by (simp add: walk_path_def demo_env_def demo_tree_def dir_names_def file_names_def join_def)

lemma demo_is_video:
  "is_video ''a.mp4''" "is_video ''b.MOV''" "is_video ''c.mkv''" "\<not> is_video ''notes.txt''"
  by (simp_all add: is_video_def splitext_def basename_def lower_def lower_char_def
      VIDEO_EXTENSIONS_def char_of_eq_iff)

lemma demo_found: "find_video_files demo_env ''/in'' = demo_files"
  by (simp add: find_video_files_def demo_walk demo_is_video demo_files_def join_def)

lemma demo_dirs:
  "isdir demo_env ''/in''" "path_exists demo_env ''/out''" "\<not> isdir demo_env ''/nowhere''"
  "lookup demo_env ''/in'' = Some demo_tree"
  by (simp_all add: isdir_def path_exists_def demo_env_def demo_tree_def)


section \<open>Validation\<close>




section \<open>The file discoverer\<close>

lemma file_under_File: "\<not> file_under File d f p"
  by (auto elim: file_under.cases)

lemma file_names_iff: "f \<in> set (file_names es) \<longleftrightarrow> (f, File) \<in> set es"
  by (force simp: file_names_def)

lemma walk_sound:
  "(dp, ds, fs) \<in> set (os_walk d x) \<Longrightarrow> f \<in> set fs \<Longrightarrow> file_under x d f (join dp f)"
  "(dp, ds, fs) \<in> set (walk_entries d es) \<Longrightarrow> f \<in> set fs \<Longrightarrow>
     \<exists>n y. (n, y) \<in> set es \<and> file_under y (join d n) f (join dp f)"
proof (induction d x and d es rule: os_walk_walk_entries.induct)
  case (1 d)
  then show ?case by simp
next
  case (2 d es)
  from "2.prems"(1)
  consider "dp = d" "fs = file_names es" | "(dp, ds, fs) \<in> set (walk_entries d es)"
    by auto
  then show ?case
  proof cases
    case 1
    with "2.prems"(2) show ?thesis by (auto simp: file_names_iff intro: file_under.here)
  next
    case 2
    from "2.IH" [OF 2 "2.prems"(2)] show ?thesis by (auto intro: file_under.below)
  qed
next
  case (3 d)
  then show ?case by simp
next
  case (4 d n x es)
  from "4.prems"(1)
  consider "(dp, ds, fs) \<in> set (os_walk (join d n) x)"
    | "(dp, ds, fs) \<in> set (walk_entries d es)"
    by auto
  then show ?case
  proof cases
    case 1
    from "4.IH"(1) [OF 1 "4.prems"(2)] show ?thesis by auto
  next
    case 2
    from "4.IH"(2) [OF 2 "4.prems"(2)] show ?thesis by auto
  qed
qed

lemma walk_entries_contains:
  "(n, x) \<in> set es \<Longrightarrow> set (os_walk (join d n) x) \<subseteq> set (walk_entries d es)"
  by (induction es) auto

lemma walk_complete:
  "file_under x d f p \<Longrightarrow>
   \<exists>dp ds fs. (dp, ds, fs) \<in> set (os_walk d x) \<and> f \<in> set fs \<and> p = join dp f"
proof (induction rule: file_under.induct)
  case (here f es d)
  then have "(d, dir_names es, file_names es) \<in> set (os_walk d (Dir es))"
    and "f \<in> set (file_names es)"
    by (simp_all add: file_names_iff)
  then show ?case by blast
next
  case (below n x es d f p)
  then obtain dp ds fs where
    "(dp, ds, fs) \<in> set (os_walk (join d n) x)" "f \<in> set fs" "p = join dp f"
    by blast
  with walk_entries_contains [OF below.hyps(1), of d]
  have "(dp, ds, fs) \<in> set (os_walk d (Dir es))" by auto
  with \<open>f \<in> set fs\<close> \<open>p = join dp f\<close> show ?case by blast
qed

lemma set_find_video_files:
  assumes "lookup e D = Some x"
  shows "set (find_video_files e D) = {p. \<exists>f. file_under x D f p \<and> is_video f}"
proof (intro set_eqI iffI)
  fix p
  assume "p \<in> set (find_video_files e D)"
  then obtain dp ds fs f where "(dp, ds, fs) \<in> set (os_walk D x)" "f \<in> set fs"
    "is_video f" "p = join dp f"
    using assms by (auto simp: find_video_files_def walk_path_def)
  with walk_sound(1) show "p \<in> {p. \<exists>f. file_under x D f p \<and> is_video f}"
    by blast
next
  fix p
  assume "p \<in> {p. \<exists>f. file_under x D f p \<and> is_video f}"
  then obtain f where "file_under x D f p" "is_video f" by blast
  with walk_complete obtain dp ds fs where
    "(dp, ds, fs) \<in> set (os_walk D x)" "f \<in> set fs" "p = join dp f"
    by blast
  with \<open>is_video f\<close> assms show "p \<in> set (find_video_files e D)"
    by (force simp: find_video_files_def walk_path_def)
qed

lemma find_video_files_no_dir: "\<not> isdir e D \<Longrightarrow> find_video_files e D = []"
  by (auto simp: isdir_def find_video_files_def walk_path_def
      split: option.splits fsnode.splits)

lemma sorted_find_video_files: "sorted (find_video_files e D)"
  by (simp add: find_video_files_def)

text \<open>
  C3. For a directory \<open>D\<close>, \<^verbatim>\<open>find_video_files\<close> returns a list in ascending
  lexicographic order that holds exactly the paths of the files below \<open>D\<close>, at any
  depth, whose extension in lower case is in \<^verbatim>\<open>VIDEO_EXTENSIONS\<close>. When the input
  directory does not exist or is no directory, \<^verbatim>\<open>validate_inputs\<close>, which guards the
  call, fails with the error box of the kind \<open>InvalidDirectory\<close> (the walk itself would
  find nothing there).
\<close>

theorem file_discoverer:
  "(lookup e D = Some (Dir es) \<longrightarrow>
      sorted (find_video_files e D)
      \<and> set (find_video_files e D) =
          {p. \<exists>f. file_under (Dir es) D f p
                   \<and> lower (snd (splitext f)) \<in> set VIDEO_EXTENSIONS})
   \<and> (\<not> isdir e (input_dir s) \<longrightarrow>
        validate_inputs e s = (s, Inl BadInputDir)
        \<and> kind_of BadInputDir = InvalidDirectory
        \<and> find_video_files e (input_dir s) = [])"
  using set_find_video_files [of e D "Dir es"] sorted_find_video_files [of e D]
  by (simp add: find_video_files_no_dir validate_inputs_def is_video_def)

theorem file_discoverer_witness:
  "lookup demo_env ''/in'' = Some demo_tree
   \<and> find_video_files demo_env ''/in'' = [''/in/a.mp4'', ''/in/b.MOV'', ''/in/sub/c.mkv'']
   \<and> sorted (find_video_files demo_env ''/in'')
   \<and> \<not> isdir demo_env (input_dir (demo_app\<lparr>input_dir := ''/nowhere''\<rparr>))
   \<and> snd (validate_inputs demo_env (demo_app\<lparr>input_dir := ''/nowhere''\<rparr>))
       = Inl BadInputDir"
  using file_discoverer [of demo_env "''/in''"
      "[(''a.mp4'', File), (''b.MOV'', File),
        (''sub'', Dir [(''c.mkv'', File), (''notes.txt'', File)])]"
      "demo_app\<lparr>input_dir := ''/nowhere''\<rparr>"]
  by (simp add: demo_dirs demo_tree_def demo_found demo_files_def)


section \<open>The command builder\<close>

lemma re_search_resolutions:
  "re_search ''4K (3840x2160)'' = Some ''3840x2160''"
  "re_search ''1080p (1920x1080)'' = Some ''1920x1080''"
  "re_search ''720p (1280x720)'' = Some ''1280x720''"
  "re_search ''480p (854x480)'' = Some ''854x480''"
  by (simp_all add: re_match_here_def is_digit_def)

lemma scale_args_resolutions:
  "scale_args ''Original'' = []"
  "scale_args ''4K (3840x2160)'' = [''-vf'', ''scale=3840x2160'']"
  "scale_args ''1080p (1920x1080)'' = [''-vf'', ''scale=1920x1080'']"
  "scale_args ''720p (1280x720)'' = [''-vf'', ''scale=1280x720'']"
  "scale_args ''480p (854x480)'' = [''-vf'', ''scale=854x480'']"
  by (simp_all add: scale_args_def re_search_resolutions del: re_search.simps)

lemma progress_command_shape:
  "progress_command (a # b # rest) = a # ''-progress'' # ''pipe:1'' # b # rest"
  by (simp add: progress_command_def list_insert_def)

text \<open>
  C9. \<^verbatim>\<open>get_ffmpeg_command\<close> depends on nothing but the four settings, the source
  and the destination: two states of the application that agree on the settings give the
  same vector. With a resolution of \<^verbatim>\<open>RESOLUTIONS\<close> and a preset of
  \<^verbatim>\<open>QUALITY_LEVELS\<close>, the vector that is run, after the two insertions of
  \<^verbatim>\<open>compress_video\<close>, is \<^verbatim>\<open>ffmpeg -progress pipe:1 -i <input> -y\<close>, then
  \<^verbatim>\<open>-vf scale=<W>x<H>\<close> if and only if the resolution is not \<^verbatim>\<open>Original\<close>, then
  the codec arguments of the format with the quality level, then
  \<^verbatim>\<open>-c:a aac -b:a 128k <output>\<close>.
\<close>

theorem command_builder_shape:
  assumes "resolution s \<in> set RESOLUTIONS"
    and "quality_preset s \<in> fst ` set QUALITY_LEVELS"
  shows "\<exists>cmd0 crf sc.
           (if quality_preset s = ''Custom'' then Some (custom_crf s)
            else map_of QUALITY_LEVELS (quality_preset s)) = Some crf
           \<and> get_ffmpeg_command s input_file output_file = Inr cmd0
           \<and> progress_command cmd0 =
               [''ffmpeg'', ''-progress'', ''pipe:1'', ''-i'', input_file, ''-y'']
               @ sc @ codec_args (output_format s) crf
               @ [''-c:a'', ''aac'', ''-b:a'', ''128k'', output_file]
           \<and> (sc = [] \<longleftrightarrow> resolution s = ''Original'')
           \<and> (sc = [] \<or> (\<exists>w h. w \<noteq> [] \<and> h \<noteq> [] \<and> list_all is_digit w \<and> list_all is_digit h
                              \<and> sc = [''-vf'', ''scale='' @ w @ ''x'' @ h]))
           \<and> (\<forall>s'. output_format s' = output_format s \<and> quality_preset s' = quality_preset s
                     \<and> custom_crf s' = custom_crf s \<and> resolution s' = resolution s
                 \<longrightarrow> get_ffmpeg_command s' input_file output_file = Inr cmd0)"
proof -
  from assms(2) obtain crf where
    crf: "(if quality_preset s = ''Custom'' then Some (custom_crf s)
           else map_of QUALITY_LEVELS (quality_preset s)) = Some crf"
    by (auto simp: QUALITY_LEVELS_def)
  let ?sc = "scale_args (resolution s)"
  let ?cmd0 = "[''ffmpeg'', ''-i'', input_file, ''-y''] @ ?sc
               @ codec_args (output_format s) crf @ [''-c:a'', ''aac'', ''-b:a'', ''128k'']
               @ [output_file]"
  have 1: "get_ffmpeg_command s input_file output_file = Inr ?cmd0"
    using crf by (simp add: get_ffmpeg_command_def)
  have 2: "progress_command ?cmd0 =
             [''ffmpeg'', ''-progress'', ''pipe:1'', ''-i'', input_file, ''-y'']
             @ ?sc @ codec_args (output_format s) crf
             @ [''-c:a'', ''aac'', ''-b:a'', ''128k'', output_file]"
    by (simp add: progress_command_shape)
  have 3: "?sc = [] \<longleftrightarrow> resolution s = ''Original''"
    using assms(1) by (auto simp: RESOLUTIONS_def scale_args_resolutions)
  have 4: "?sc = [] \<or> (\<exists>w h. w \<noteq> [] \<and> h \<noteq> [] \<and> list_all is_digit w \<and> list_all is_digit h
                              \<and> ?sc = [''-vf'', ''scale='' @ w @ ''x'' @ h])"
  proof -
    have d: "list_all is_digit ''3840''" "list_all is_digit ''2160''"
      "list_all is_digit ''1920''" "list_all is_digit ''1080''"
      "list_all is_digit ''1280''" "list_all is_digit ''720''"
      "list_all is_digit ''854''" "list_all is_digit ''480''"
      by (simp_all add: is_digit_def)
    from assms(1) consider "resolution s = ''Original''"
      | "resolution s = ''4K (3840x2160)''" | "resolution s = ''1080p (1920x1080)''"
      | "resolution s = ''720p (1280x720)''" | "resolution s = ''480p (854x480)''"
      by (auto simp: RESOLUTIONS_def)
    then show ?thesis
    proof cases
      case 1
      then show ?thesis by (simp add: scale_args_resolutions)
    next
      case 2
      have "?sc = [''-vf'', ''scale='' @ ''3840'' @ ''x'' @ ''2160'']"
        using 2 by (simp add: scale_args_resolutions)
      with d show ?thesis by blast
    next
      case 3
      have "?sc = [''-vf'', ''scale='' @ ''1920'' @ ''x'' @ ''1080'']"
        using 3 by (simp add: scale_args_resolutions)
      with d show ?thesis by blast
    next
      case 4
      have "?sc = [''-vf'', ''scale='' @ ''1280'' @ ''x'' @ ''720'']"
        using 4 by (simp add: scale_args_resolutions)
      with d show ?thesis by blast
    next
      case 5
      have "?sc = [''-vf'', ''scale='' @ ''854'' @ ''x'' @ ''480'']"
        using 5 by (simp add: scale_args_resolutions)
      with d show ?thesis by blast
    qed
  qed
  have 5: "\<forall>s'. output_format s' = output_format s \<and> quality_preset s' = quality_preset s
                     \<and> custom_crf s' = custom_crf s \<and> resolution s' = resolution s
                 \<longrightarrow> get_ffmpeg_command s' input_file output_file = Inr ?cmd0"
  proof (intro allI impI)
    fix s' :: app
    assume "output_format s'= output_format s \<and> quality_preset s' = quality_preset s
              \<and> custom_crf s' = custom_crf s \<and> resolution s' = resolution s"
    then have "get_ffmpeg_command s' input_file output_file
                 = get_ffmpeg_command s input_file output_file"
      by (simp add: get_ffmpeg_command_def split: option.splits)
    with 1 show "get_ffmpeg_command s' input_file output_file = Inr ?cmd0" by simp
  qed
  from crf 1 2 3 4 5 show ?thesis by blast
qed

theorem command_builder_shape_witness:
  "resolution demo_app \<in> set RESOLUTIONS \<and> quality_preset demo_app \<in> fst ` set QUALITY_LEVELS
   \<and> get_ffmpeg_command demo_app ''/in/a.mp4'' ''/out/a.mp4'' =
       Inr [''ffmpeg'', ''-i'', ''/in/a.mp4'', ''-y'', ''-vf'', ''scale=1280x720'',
            ''-c:v'', ''libx264'', ''-crf'', ''23'', ''-preset'', ''medium'',
            ''-c:a'', ''aac'', ''-b:a'', ''128k'', ''/out/a.mp4'']
   \<and> (\<exists>cmd0. get_ffmpeg_command demo_app ''/in/a.mp4'' ''/out/a.mp4'' = Inr cmd0
         \<and> get_ffmpeg_command (demo_app\<lparr>is_processing := True, video_files := demo_files\<rparr>)
              ''/in/a.mp4'' ''/out/a.mp4'' = Inr cmd0)"
  using command_builder_shape [of demo_app "''/in/a.mp4''" "''/out/a.mp4''"]
  by (simp add: demo_app_def RESOLUTIONS_def QUALITY_LEVELS_def get_ffmpeg_command_def
      scale_args_resolutions codec_args_def)


section \<open>The batch driver\<close>

lemma started_append: "started (xs @ ys) = started xs @ started ys"
  by (induction xs rule: started.induct) simp_all

lemma started_handle_line: "started (handle_line d raw) = []"
  by (auto simp: handle_line_def Let_def split: sum.splits option.splits)

lemma started_shown: "started (concat (map (handle_line d) ls)) = []"
  by (induction ls) (simp_all add: started_append started_handle_line)

lemma started_compress_video: "started (snd (compress_video e s f out)) = [f]"
  by (simp add: compress_video_def duration_cmd_def started_append started_shown Let_def
      split: probe_result.splits sum.splits encoder_result.splits)

lemma dirs_made_first_mono:
  "dirs_made_first m evs \<Longrightarrow> set m \<subseteq> set m' \<Longrightarrow> dirs_made_first m' evs"
proof (induction m evs arbitrary: m' rule: dirs_made_first.induct)
  case (2 made d evs)
  from "2.prems" have "set (d # made) \<subseteq> set (d # m')" by auto
  with "2.IH" [of "d # m'"] "2.prems"(1) show ?case by simp
qed auto

lemma dirs_made_first_append:
  "dirs_made_first m xs \<Longrightarrow> dirs_made_first m ys \<Longrightarrow> dirs_made_first m (xs @ ys)"
proof (induction m xs rule: dirs_made_first.induct)
  case (2 made d evs)
  from "2.prems"(2) have "dirs_made_first (d # made) ys"
    by (rule dirs_made_first_mono) auto
  with 2 show ?case by simp
qed auto

lemma dirs_made_first_handle_line: "dirs_made_first m (handle_line d raw)"
  by (auto simp: handle_line_def Let_def split: sum.splits option.splits)

lemma dirs_made_first_shown: "dirs_made_first m (concat (map (handle_line d) ls))"
  by (induction ls) (simp_all add: dirs_made_first_append dirs_made_first_handle_line)

lemma last_progress_command:
  "get_ffmpeg_command s f out = Inr cmd0 \<Longrightarrow> last (progress_command cmd0) = out"
  by (auto simp: get_ffmpeg_command_def progress_command_def list_insert_def
      split: option.splits)

lemma dirs_made_first_compress_video:
  "dirname out \<in> set m \<Longrightarrow> dirs_made_first m (snd (compress_video e s f out))"
  by (auto simp: compress_video_def Let_def last_progress_command
      dirs_made_first_append dirs_made_first_shown
      split: probe_result.splits sum.splits encoder_result.splits)

lemma run_task_fields:
  "processed_files (run_task e s n f out k st) =
     processed_files st + (if fst (compress_video e s f out) then 1 else 0)"
  "failed_files (run_task e s n f out k st) =
     failed_files st + (if fst (compress_video e s f out) then 0 else 1)"
  "cancel_seen (run_task e s n f out k st) = cancel_seen st"
  "started (events (run_task e s n f out k st)) = started (events st) @ [f]"
  by (simp_all add: run_task_def Let_def case_prod_beta started_append
      started_compress_video)

lemma dirs_made_first_run_task:
  assumes "dirs_made_first [] (events st)"
  shows "dirs_made_first [] (events (run_task e s n f out k st))"
proof -
  have "dirs_made_first [dirname out] (snd (compress_video e s f out))"
    by (rule dirs_made_first_compress_video) simp
  then have "dirs_made_first []
     ([Makedirs (dirname out), CurrentFile (basename f), ProgressText (processed_files st) n,
       Status (Compressing (basename f)), FileProgress (Finite 0)]
      @ snd (compress_video e s f out) @ evs)" if "dirs_made_first [dirname out] evs" for evs
    using that by (simp add: dirs_made_first_append)
  then show ?thesis
    using assms
    by (simp add: run_task_def Let_def case_prod_beta dirs_made_first_append)
qed

lemma events_run_task:
  "\<exists>evs. events (run_task e s n f out k st) = events st @ evs"
  by (simp add: run_task_def Let_def case_prod_beta)

lemma task_loop_step:
  assumes "\<not> cancel_seen st" "\<not> cancel_pressed e k" "output_path e s f = Inr out"
    "makedirs_ok e (dirname out)"
  shows "task_loop e s n (f # fs) k st = task_loop e s n fs (Suc k) (run_task e s n f out k st)"
  using assms by simp

lemma startable_iff:
  "startable e s f \<longleftrightarrow> (\<exists>out. output_path e s f = Inr out \<and> makedirs_ok e (dirname out))"
  by (auto simp: startable_def split: sum.splits)

lemma task_succeeds_eq:
  "output_path e s f = Inr out \<Longrightarrow> task_succeeds e s f = fst (compress_video e s f out)"
  by (simp add: task_succeeds_def)

lemma loop_clean:
  assumes "\<not> cancel_seen st" "\<forall>i<length xs. \<not> cancel_pressed e (k + i)"
    "\<forall>f\<in>set xs. startable e s f"
  shows "fst (task_loop e s n xs k st) = None
     \<and> \<not> cancel_seen (snd (task_loop e s n xs k st))
     \<and> processed_files (snd (task_loop e s n xs k st)) =
         processed_files st + length (filter (task_succeeds e s) xs)
     \<and> failed_files (snd (task_loop e s n xs k st)) =
         failed_files st + length (filter (\<lambda>f. \<not> task_succeeds e s f) xs)
     \<and> started (events (snd (task_loop e s n xs k st))) = started (events st) @ xs"
  using assms
proof (induction xs arbitrary: k st)
  case Nil
  then show ?case by simp
next
  case (Cons f fs)
  from Cons.prems(3) obtain out where
    out: "output_path e s f = Inr out" "makedirs_ok e (dirname out)"
    by (auto simp: startable_iff)
  from Cons.prems(2) have nc: "\<not> cancel_pressed e k" by force
  have step: "task_loop e s n (f # fs) k st
                = task_loop e s n fs (Suc k) (run_task e s n f out k st)"
    by (rule task_loop_step [OF Cons.prems(1) nc out])
  have a: "\<not> cancel_seen (run_task e s n f out k st)"
    using Cons.prems(1) by (simp add: run_task_fields)
  have b: "\<forall>i<length fs. \<not> cancel_pressed e (Suc k + i)"
    using Cons.prems(2) by force
  have c: "\<forall>f\<in>set fs. startable e s f" using Cons.prems(3) by simp
  from Cons.IH [OF a b c] show ?case
    by (simp only: step) (simp add: run_task_fields task_succeeds_eq [OF out(1)])
qed

lemma loop_append:
  assumes "\<not> cancel_seen st" "\<forall>i<length xs. \<not> cancel_pressed e (k + i)"
    "\<forall>f\<in>set xs. startable e s f"
  shows "task_loop e s n (xs @ ys) k st =
           task_loop e s n ys (k + length xs) (snd (task_loop e s n xs k st))"
  using assms
proof (induction xs arbitrary: k st)
  case Nil
  then show ?case by simp
next
  case (Cons f fs)
  from Cons.prems(3) obtain out where
    out: "output_path e s f = Inr out" "makedirs_ok e (dirname out)"
    by (auto simp: startable_iff)
  from Cons.prems(2) have nc: "\<not> cancel_pressed e k" by force
  have a: "\<not> cancel_seen (run_task e s n f out k st)"
    using Cons.prems(1) by (simp add: run_task_fields)
  have b: "\<forall>i<length fs. \<not> cancel_pressed e (Suc k + i)"
    using Cons.prems(2) by force
  have c: "\<forall>f\<in>set fs. startable e s f" using Cons.prems(3) by simp
  from Cons.IH [OF a b c] show ?case
    using task_loop_step [OF Cons.prems(1) nc out, of n fs]
      task_loop_step [OF Cons.prems(1) nc out, of n "fs @ ys"]
    by simp
qed

lemma loop_dirs_made_first:
  "dirs_made_first [] (events st) \<Longrightarrow>
   dirs_made_first [] (events (snd (task_loop e s n xs k st)))"
proof (induction xs arbitrary: k st)
  case Nil
  then show ?case by simp
next
  case (Cons f fs)
  show ?case
    using Cons.prems Cons.IH [OF dirs_made_first_run_task [OF Cons.prems]]
    by (auto split: sum.splits)
qed

lemma exit_code_decides:
  assumes "output_path e s f = Inr out" "ffprobe e (duration_cmd f) = ProbeOutput dout"
    "get_ffmpeg_command s f out = Inr cmd0" "ffmpeg e (progress_command cmd0) = EncoderRun ls rc"
  shows "task_succeeds e s f \<longleftrightarrow> rc = 0"
  using assms by (simp add: task_succeeds_def compress_video_def Let_def)

text \<open>
  C5. In a batch that nobody cancels and in which every task can be started, the batch
  ends in the state \<open>Completed\<close>, every file of the list has been taken, in the order
  of the list, the failed count is the number of tasks for which
  \<^verbatim>\<open>compress_video\<close> returned false and the processed count is the number of the
  others: a failed task fails alone and the driver goes on. A task whose probe answers
  and whose encoder starts fails exactly when the exit code of the encoder is not zero.
\<close>

theorem partial_failure_continues:
  assumes "\<not> cancel_requested s"
    and "\<forall>k\<le>length (video_files s). \<not> cancel_pressed e k"
    and "\<forall>f\<in>set (video_files s). startable e s f"
  shows "outcome (snd (process_video_files e s)) = Completed
     \<and> started (trace (snd (process_video_files e s))) = video_files s
     \<and> n_processed (snd (process_video_files e s)) =
         length (filter (task_succeeds e s) (video_files s))
     \<and> n_failed (snd (process_video_files e s)) =
         length (filter (\<lambda>f. \<not> task_succeeds e s f) (video_files s))
     \<and> (\<forall>f out dout cmd0 ls rc.
           output_path e s f = Inr out \<and> ffprobe e (duration_cmd f) = ProbeOutput dout
           \<and> get_ffmpeg_command s f out = Inr cmd0
           \<and> ffmpeg e (progress_command cmd0) = EncoderRun ls rc
           \<longrightarrow> (task_succeeds e s f \<longleftrightarrow> rc = 0))"
proof -
  let ?n = "length (video_files s)"
  obtain x st where r: "task_loop e s ?n (video_files s) 0 (initial_state s) = (x, st)"
    by (cases "task_loop e s ?n (video_files s) 0 (initial_state s)")
  have a: "\<not> cancel_seen (initial_state s)" using assms(1) by (simp add: initial_state_def)
  have b: "\<forall>i<?n. \<not> cancel_pressed e (0 + i)" using assms(2) by simp
  from loop_clean [OF a b assms(3), of ?n] r
  have st: "x = None" "\<not> cancel_seen st"
    "processed_files st = length (filter (task_succeeds e s) (video_files s))"
    "failed_files st = length (filter (\<lambda>f. \<not> task_succeeds e s f) (video_files s))"
    "started (events st) = video_files s"
    by (simp_all add: initial_state_def)
  from assms(2) have c: "\<not> cancel_pressed e ?n" by simp
  have "outcome (snd (process_video_files e s)) = Completed
     \<and> started (trace (snd (process_video_files e s))) = video_files s
     \<and> n_processed (snd (process_video_files e s)) =
         length (filter (task_succeeds e s) (video_files s))
     \<and> n_failed (snd (process_video_files e s)) =
         length (filter (\<lambda>f. \<not> task_succeeds e s f) (video_files s))"
    using r st c by (simp add: process_video_files_def Let_def started_append)
  then show ?thesis using exit_code_decides by blast
qed

lemma get_ffmpeg_command_ignores_flag:
  "get_ffmpeg_command (s\<lparr>cancel_requested := b\<rparr>) f out = get_ffmpeg_command s f out"
  by (simp add: get_ffmpeg_command_def split: option.splits)

lemma compress_video_ignores_flag:
  "compress_video e (s\<lparr>cancel_requested := b\<rparr>) f out = compress_video e s f out"
  unfolding compress_video_def get_ffmpeg_command_ignores_flag ..

text \<open>
  C6. Let the cancel button be pressed for the first time before the worker reads the
  flag for the \<open>j\<close>-th time, that is, while the \<open>j\<close>-th task of the list is in
  flight (or before the first one, for \<open>j = 0\<close>), and let the tasks before be
  startable. Then exactly the first \<open>j\<close> files are taken, each of them runs to its
  end and is counted, no later file is started, and the batch ends in the state
  \<open>Cancelled\<close>. The flag is read at the top of the loop only:
  \<^verbatim>\<open>compress_video\<close> does not depend on it.
\<close>

theorem cancellation_at_boundary:
  assumes "\<not> cancel_requested s"
    and "j \<le> length (video_files s)"
    and "cancel_pressed e j"
    and "\<forall>i<j. \<not> cancel_pressed e i"
    and "\<forall>f\<in>set (take j (video_files s)). startable e s f"
  shows "outcome (snd (process_video_files e s)) = Cancelled
     \<and> started (trace (snd (process_video_files e s))) = take j (video_files s)
     \<and> n_processed (snd (process_video_files e s)) + n_failed (snd (process_video_files e s)) = j
     \<and> (\<forall>b f out. compress_video e (s\<lparr>cancel_requested := b\<rparr>) f out
                     = compress_video e s f out)"
proof -
  let ?n = "length (video_files s)"
  let ?xs = "take j (video_files s)"
  let ?ys = "drop j (video_files s)"
  let ?st = "snd (task_loop e s ?n ?xs 0 (initial_state s))"
  have len: "length ?xs = j" using assms(2) by simp
  have a: "\<not> cancel_seen (initial_state s)" using assms(1) by (simp add: initial_state_def)
  have b: "\<forall>i<length ?xs. \<not> cancel_pressed e (0 + i)" using assms(4) len by simp
  from loop_clean [OF a b assms(5), of ?n]
  have st: "\<not> cancel_seen ?st"
    "processed_files ?st = length (filter (task_succeeds e s) ?xs)"
    "failed_files ?st = length (filter (\<lambda>f. \<not> task_succeeds e s f) ?xs)"
    "started (events ?st) = ?xs"
    by (simp_all add: initial_state_def)
  have sum: "processed_files ?st + failed_files ?st = j"
    using sum_length_filter_compl [of "task_succeeds e s" ?xs] len by (simp add: st)
  have split: "task_loop e s ?n (video_files s) 0 (initial_state s)
                 = task_loop e s ?n ?ys j ?st"
    using loop_append [OF a b assms(5), of ?n ?ys] len by simp
  have "\<exists>st'. task_loop e s ?n ?ys j ?st = (None, st')
          \<and> (cancel_seen st' \<or> cancel_pressed e ?n)
          \<and> processed_files st' = processed_files ?st \<and> failed_files st' = failed_files ?st
          \<and> events st' = events ?st"
  proof (cases ?ys)
    case Nil
    then have "j = ?n" using assms(2) by simp
    with Nil assms(3) show ?thesis by simp
  next
    case (Cons y ys)
    with assms(3) show ?thesis by simp
  qed
  then obtain st' where st': "task_loop e s ?n ?ys j ?st = (None, st')"
    "cancel_seen st' \<or> cancel_pressed e ?n"
    "processed_files st' = processed_files ?st" "failed_files st' = failed_files ?st"
    "events st' = events ?st"
    by blast
  have "outcome (snd (process_video_files e s)) = Cancelled
     \<and> started (trace (snd (process_video_files e s))) = take j (video_files s)
     \<and> n_processed (snd (process_video_files e s)) + n_failed (snd (process_video_files e s)) = j"
    using split st' st(4) sum
    by (auto simp: process_video_files_def Let_def started_append)
  then show ?thesis using compress_video_ignores_flag by blast
qed

lemma trace_dirs_made_first:
  "dirs_made_first [] (trace (snd (process_video_files e s)))"
proof -
  let ?n = "length (video_files s)"
  obtain x st where r: "task_loop e s ?n (video_files s) 0 (initial_state s) = (x, st)"
    by (cases "task_loop e s ?n (video_files s) 0 (initial_state s)")
  have "dirs_made_first [] (events (initial_state s))" by (simp add: initial_state_def)
  from loop_dirs_made_first [OF this, of e s ?n "video_files s" 0] r
  have "dirs_made_first [] (events st)" by simp
  then show ?thesis
    using r
    by (auto simp: process_video_files_def Let_def dirs_made_first_append
        split: option.splits)
qed


subsection \<open>The sample run, continued\<close>

lemmas path_defs = join_def basename_def dirname_def splitext_def normpath_def abspath_def
  relpath_def

lemma output_path_video_files:
  "output_path e (s\<lparr>video_files := v\<rparr>) f = output_path e s f"
  by (simp add: output_path_def split: sum.splits)

lemma get_ffmpeg_command_video_files:
  "get_ffmpeg_command (s\<lparr>video_files := v\<rparr>) f out = get_ffmpeg_command s f out"
  by (simp add: get_ffmpeg_command_def split: option.splits)

lemma compress_video_video_files:
  "compress_video e (s\<lparr>video_files := v\<rparr>) f out = compress_video e s f out"
  unfolding compress_video_def get_ffmpeg_command_video_files ..

lemma startable_video_files: "startable e (s\<lparr>video_files := v\<rparr>) f = startable e s f"
  by (simp add: startable_def output_path_video_files)

lemma task_succeeds_video_files:
  "task_succeeds e (s\<lparr>video_files := v\<rparr>) f = task_succeeds e s f"
  by (simp add: task_succeeds_def output_path_video_files compress_video_video_files
      split: sum.splits)

lemma startable_cancel_pressed:
  "startable (e\<lparr>cancel_pressed := c\<rparr>) s f = startable e s f"
  by (simp add: startable_def output_path_def split: sum.splits)

lemma demo_output_path:
  "output_path demo_env demo_app ''/in/a.mp4'' = Inr ''/out/a.mp4''"
  "output_path demo_env demo_app ''/in/b.MOV'' = Inr ''/out/b.mp4''"
  "output_path demo_env demo_app ''/in/sub/c.mkv'' = Inr ''/out/sub/c.mp4''"
  "output_path demo_env demo_app ''/in/d.avi'' = Inr ''/out/d.mp4''"
  "output_path demo_env demo_app ''/in/a.mov'' = Inr ''/out/a.mp4''"
  by (simp_all add: output_path_def demo_env_def demo_app_def path_defs)

lemma demo_startable:
  "startable demo_env demo_app ''/in/a.mp4''" "startable demo_env demo_app ''/in/b.MOV''"
  "startable demo_env demo_app ''/in/sub/c.mkv''" "startable demo_env demo_app ''/in/d.avi''"
  by (simp_all add: startable_def demo_output_path) (simp_all add: demo_env_def)

lemma demo_compress:
  "fst (compress_video demo_env demo_app ''/in/a.mp4'' ''/out/a.mp4'')"
  "\<not> fst (compress_video demo_env demo_app ''/in/b.MOV'' ''/out/b.mp4'')"
  "fst (compress_video demo_env demo_app ''/in/sub/c.mkv'' ''/out/sub/c.mp4'')"
  "fst (compress_video demo_env demo_app ''/in/d.avi'' ''/out/d.mp4'')"
  by (simp_all add: compress_video_def demo_env_def demo_app_def get_ffmpeg_command_def
      QUALITY_LEVELS_def Let_def progress_command_def list_insert_def)

lemma demo_succeeds:
  "task_succeeds demo_env demo_app ''/in/a.mp4''"
  "\<not> task_succeeds demo_env demo_app ''/in/b.MOV''"
  "task_succeeds demo_env demo_app ''/in/sub/c.mkv''"
  "task_succeeds demo_env demo_app ''/in/d.avi''"
  by (simp_all add: task_succeeds_def demo_output_path demo_compress)

lemma demo_quiet: "\<not> cancel_pressed demo_env k" "\<not> cancel_requested demo_app"
  by (simp_all add: demo_env_def demo_app_def)

theorem partial_failure_continues_witness:
  "\<not> cancel_requested demo_batch
   \<and> video_files demo_batch = [''/in/a.mp4'', ''/in/b.MOV'', ''/in/sub/c.mkv'']
   \<and> \<not> cancel_pressed demo_env 0 \<and> \<not> cancel_pressed demo_env 1
   \<and> \<not> cancel_pressed demo_env 2 \<and> \<not> cancel_pressed demo_env 3
   \<and> startable demo_env demo_batch ''/in/a.mp4''
   \<and> startable demo_env demo_batch ''/in/b.MOV''
   \<and> startable demo_env demo_batch ''/in/sub/c.mkv''
   \<and> task_succeeds demo_env demo_batch ''/in/a.mp4''
   \<and> \<not> task_succeeds demo_env demo_batch ''/in/b.MOV''
   \<and> task_succeeds demo_env demo_batch ''/in/sub/c.mkv''
   \<and> outcome (snd (process_video_files demo_env demo_batch)) = Completed
   \<and> started (trace (snd (process_video_files demo_env demo_batch))) =
       [''/in/a.mp4'', ''/in/b.MOV'', ''/in/sub/c.mkv'']
   \<and> n_processed (snd (process_video_files demo_env demo_batch)) = 2
   \<and> n_failed (snd (process_video_files demo_env demo_batch)) = 1"
  using partial_failure_continues [of demo_batch demo_env]
  by (simp add: demo_batch_def demo_files_def demo_quiet startable_video_files
      task_succeeds_video_files demo_startable demo_succeeds)

theorem cancellation_at_boundary_witness:
  "\<not> cancel_requested demo_batch \<and> 2 \<le> length (video_files demo_batch)
   \<and> cancel_pressed (demo_env\<lparr>cancel_pressed := (\<lambda>k. k = 2)\<rparr>) 2
   \<and> \<not> cancel_pressed (demo_env\<lparr>cancel_pressed := (\<lambda>k. k = 2)\<rparr>) 0
   \<and> \<not> cancel_pressed (demo_env\<lparr>cancel_pressed := (\<lambda>k. k = 2)\<rparr>) 1
   \<and> startable (demo_env\<lparr>cancel_pressed := (\<lambda>k. k = 2)\<rparr>) demo_batch ''/in/a.mp4''
   \<and> startable (demo_env\<lparr>cancel_pressed := (\<lambda>k. k = 2)\<rparr>) demo_batch ''/in/b.MOV''
   \<and> outcome (snd (process_video_files (demo_env\<lparr>cancel_pressed := (\<lambda>k. k = 2)\<rparr>) demo_batch))
       = Cancelled
   \<and> started (trace (snd (process_video_files
         (demo_env\<lparr>cancel_pressed := (\<lambda>k. k = 2)\<rparr>) demo_batch)))
       = [''/in/a.mp4'', ''/in/b.MOV'']"
  using cancellation_at_boundary
    [of demo_batch 2 "demo_env\<lparr>cancel_pressed := (\<lambda>k. k = 2)\<rparr>"]
  by (simp add: demo_batch_def demo_files_def demo_quiet startable_video_files
      startable_cancel_pressed demo_startable)

subsection \<open>The estimate of the time remaining\<close>

lemma last_events_run_task:
  "last (events (run_task e s n f out k st)) =
     (if 0 < processed_files st + (if fst (compress_video e s f out) then 1 else 0)
      then TimeRemaining (Seconds (py_trunc (estimate e k n
             (processed_files st + (if fst (compress_video e s f out) then 1 else 0)))))
      else OverallProgress 0)"
  by (simp add: run_task_def Let_def case_prod_beta)

lemma estimate_all_done:
  "estimate e k (Suc k + m) (Suc k) =
     (clock e (Suc k) - clock e 0) / of_nat (Suc k) * of_nat m"
  by (simp add: estimate_def Let_def)

text \<open>
  C4, amended. After each task of a prefix of the batch in which every task succeeded,
  the estimate shown is \<open>(elapsed batch time / tasks completed so far) * tasks not yet
  attempted\<close>, cut to whole seconds; after 1 of 4 tasks that took 10 seconds it is 30
  seconds. (\<open>state_after\<close> is the state of the loop at the boundary after the prefix:
  the loop goes on from there.)
\<close>

theorem estimate_after_prefix:
  assumes "video_files s = xs @ ys" and "xs \<noteq> []"
    and "\<not> cancel_requested s"
    and "\<forall>i<length xs. \<not> cancel_pressed e i"
    and "\<forall>f\<in>set xs. startable e s f"
    and "\<forall>f\<in>set xs. task_succeeds e s f"
  shows "last (events (state_after e s xs)) =
           TimeRemaining (Seconds (py_trunc
             ((clock e (length xs) - clock e 0) / of_nat (length xs) * of_nat (length ys))))
     \<and> task_loop e s (length (video_files s)) (video_files s) 0 (initial_state s) =
         task_loop e s (length (video_files s)) ys (length xs) (state_after e s xs)"
proof -
  let ?n = "length (video_files s)"
  have a: "\<not> cancel_seen (initial_state s)" using assms(3) by (simp add: initial_state_def)
  have b: "\<forall>i<length xs. \<not> cancel_pressed e (0 + i)" using assms(4) by simp
  have boundary: "task_loop e s ?n (video_files s) 0 (initial_state s) =
         task_loop e s ?n ys (length xs) (state_after e s xs)"
    using loop_append [OF a b assms(5), of ?n ys] assms(1) by (simp add: state_after_def)
  from assms(2) obtain zs f where xs: "xs = zs @ [f]" by (cases xs rule: rev_cases) auto
  let ?st = "snd (task_loop e s ?n zs 0 (initial_state s))"
  have bz: "\<forall>i<length zs. \<not> cancel_pressed e (0 + i)" using assms(4) xs by simp
  have cz: "\<forall>f\<in>set zs. startable e s f" using assms(5) xs by simp
  have all: "filter (task_succeeds e s) zs = zs" using assms(6) xs by simp
  from loop_clean [OF a bz cz, of ?n]
  have st: "\<not> cancel_seen ?st" "processed_files ?st = length zs"
    by (simp_all add: initial_state_def all)
  from assms(5) xs obtain out where
    out: "output_path e s f = Inr out" "makedirs_ok e (dirname out)"
    by (auto simp: startable_iff)
  from assms(6) xs have ok: "fst (compress_video e s f out)"
    by (simp add: task_succeeds_eq [OF out(1)])
  from assms(4) xs have nc: "\<not> cancel_pressed e (length zs)" by simp
  have "state_after e s xs = snd (task_loop e s ?n [f] (length zs) ?st)"
    using loop_append [OF a bz cz, of ?n "[f]"] by (simp add: state_after_def xs)
  also have "\<dots> = run_task e s ?n f out (length zs) ?st"
    using task_loop_step [OF st(1) nc out, of ?n "[]"] by simp
  finally have "last (events (state_after e s xs)) =
      TimeRemaining (Seconds (py_trunc (estimate e (length zs) ?n (Suc (length zs)))))"
    by (simp add: last_events_run_task ok st(2))
  moreover have "?n = Suc (length zs) + length ys" using assms(1) xs by simp
  ultimately have "last (events (state_after e s xs)) =
      TimeRemaining (Seconds (py_trunc
        ((clock e (Suc (length zs)) - clock e 0) / of_nat (Suc (length zs))
         * of_nat (length ys))))"
    by (simp only: estimate_all_done)
  then show ?thesis using boundary xs by simp
qed

theorem estimate_after_prefix_witness:
  "video_files demo_batch4 = [''/in/a.mp4''] @ [''/in/b.MOV'', ''/in/sub/c.mkv'', ''/in/d.avi'']
   \<and> \<not> cancel_requested demo_batch4
   \<and> startable demo_env demo_batch4 ''/in/a.mp4''
   \<and> task_succeeds demo_env demo_batch4 ''/in/a.mp4''
   \<and> clock demo_env 1 - clock demo_env 0 = 10
   \<and> last (events (state_after demo_env demo_batch4 [''/in/a.mp4''])) =
       TimeRemaining (Seconds 30)"
  using estimate_after_prefix [of demo_batch4 "[''/in/a.mp4'']"
      "[''/in/b.MOV'', ''/in/sub/c.mkv'', ''/in/d.avi'']" demo_env]
  by (simp add: demo_batch4_def demo_files_def demo_quiet startable_video_files
      task_succeeds_video_files demo_startable demo_succeeds py_trunc_def)
    (simp add: demo_env_def)

text \<open>
  With a failed task in the prefix the claim does not hold as it is written: the code
  divides by the number of tasks that succeeded and multiplies by the number of all
  tasks that have not succeeded, so a failed task counts as one that remains. After the
  first two tasks of the sample run (the second fails, twenty seconds have passed, one
  task is left) it shows 40 seconds, not 20.
\<close>

lemma demo_state_after_two:
  "state_after demo_env demo_batch [''/in/a.mp4'', ''/in/b.MOV''] =
     run_task demo_env demo_batch 3 ''/in/b.MOV'' ''/out/b.mp4'' 1
       (run_task demo_env demo_batch 3 ''/in/a.mp4'' ''/out/a.mp4'' 0
          (initial_state demo_batch))"
proof -
  have m: "makedirs_ok demo_env d" for d by (simp add: demo_env_def)
  have n: "length (video_files demo_batch) = 3" by (simp add: demo_batch_def demo_files_def)
  have c: "\<not> cancel_seen (initial_state demo_batch)"
    by (simp add: initial_state_def demo_batch_def demo_quiet)
  have o: "output_path demo_env demo_batch ''/in/a.mp4'' = Inr ''/out/a.mp4''"
    "output_path demo_env demo_batch ''/in/b.MOV'' = Inr ''/out/b.mp4''"
    by (simp_all add: demo_batch_def output_path_video_files demo_output_path)
  show ?thesis
    by (simp add: state_after_def n c o m demo_quiet run_task_fields)
qed

theorem estimate_with_failure_counterexample:
  "last (events (state_after demo_env demo_batch [''/in/a.mp4'', ''/in/b.MOV'']))
     = TimeRemaining (Seconds 40)
   \<and> length (filter (task_succeeds demo_env demo_batch) [''/in/a.mp4'', ''/in/b.MOV'']) = 1
   \<and> video_files demo_batch = [''/in/a.mp4'', ''/in/b.MOV''] @ [''/in/sub/c.mkv'']
   \<and> last (events (state_after demo_env demo_batch [''/in/a.mp4'', ''/in/b.MOV'']))
     \<noteq> TimeRemaining (Seconds (py_trunc
           ((clock demo_env 2 - clock demo_env 0) / 1 * of_nat (length [''/in/sub/c.mkv'']))))"
proof -
  have "last (events (state_after demo_env demo_batch [''/in/a.mp4'', ''/in/b.MOV'']))
     = TimeRemaining (Seconds (py_trunc (estimate demo_env 1 3 1)))"
    by (simp only: demo_state_after_two)
       (simp add: last_events_run_task run_task_fields initial_state_def demo_batch_def
          compress_video_video_files demo_compress)
  moreover have "estimate demo_env 1 3 1 = 40" "clock demo_env 2 - clock demo_env 0 = 20"
    by (simp_all add: estimate_def demo_env_def)
  ultimately show ?thesis
    by (simp add: py_trunc_def demo_batch_def demo_files_def task_succeeds_video_files
        demo_succeeds)
qed

subsection \<open>The duration probe\<close>

text \<open>
  When the probe cannot be run or exits with a code that is not zero,
  \<^verbatim>\<open>check_output\<close> raises inside the outer \<^verbatim>\<open>try\<close>: the task fails, the encoder
  is not run and an error is put into the status line.
\<close>

theorem probe_failure_counterexample:
  "compress_video demo_env_no_probe demo_app ''/in/a.mp4'' ''/out/a.mp4'' =
     (False, [RunProbe (duration_cmd ''/in/a.mp4''), Status (ErrorRaised CalledProcessError)])"
  by (simp add: compress_video_def demo_env_no_probe_def demo_env_def)

lemma shown_unknown:
  "\<not> py_less (Finite 0) d \<Longrightarrow> concat (map (handle_line d) ls) = []"
  by (simp add: handle_line_unknown)

text \<open>
  C7, amended. For every task, an output of the probe that \<^verbatim>\<open>float\<close> cannot read
  gives the duration zero and only switches the percentage of the file off: the encoder
  is still run, the task fails or succeeds by the exit code of the encoder alone, and
  nothing is reported about the probe. A probe whose invocation itself fails makes the
  task fail without the encoder being run, with an error in the status line.
\<close>

theorem probe_degrades:
  "(ffprobe e (duration_cmd f) = ProbeOutput dout \<and> py_float (strip dout) = None
      \<and> get_ffmpeg_command s f out = Inr cmd0
      \<and> ffmpeg e (progress_command cmd0) = EncoderRun ls rc
    \<longrightarrow> probed_duration dout = Finite 0
        \<and> compress_video e s f out =
            (rc = 0,
             [RunProbe (duration_cmd f), RunEncoder (progress_command cmd0)]
             @ (if rc = 0 then [FileProgress (Finite 100)]
                else [Status (ErrorCompressing (basename f))])))
   \<and> (ffprobe e (duration_cmd f) = ProbeRaises x
    \<longrightarrow> compress_video e s f out =
          (False, [RunProbe (duration_cmd f), Status (ErrorRaised x)]))"
  by (auto simp: compress_video_def probed_duration_def Let_def shown_unknown)

lemma demo_command:
  "get_ffmpeg_command demo_app ''/in/a.mp4'' ''/out/a.mp4'' =
     Inr [''ffmpeg'', ''-i'', ''/in/a.mp4'', ''-y'', ''-vf'', ''scale=1280x720'',
          ''-c:v'', ''libx264'', ''-crf'', ''23'', ''-preset'', ''medium'',
          ''-c:a'', ''aac'', ''-b:a'', ''128k'', ''/out/a.mp4'']"
  by (simp add: demo_app_def QUALITY_LEVELS_def get_ffmpeg_command_def
      scale_args_resolutions codec_args_def)

theorem probe_degrades_witness:
  "ffprobe demo_env_no_duration (duration_cmd ''/in/a.mp4'') = ProbeOutput ''N/A''
   \<and> py_float (strip ''N/A'') = None
   \<and> compress_video demo_env_no_duration demo_app ''/in/a.mp4'' ''/out/a.mp4'' =
       (True,
        [RunProbe (duration_cmd ''/in/a.mp4''),
         RunEncoder [''ffmpeg'', ''-progress'', ''pipe:1'', ''-i'', ''/in/a.mp4'', ''-y'',
            ''-vf'', ''scale=1280x720'', ''-c:v'', ''libx264'', ''-crf'', ''23'',
            ''-preset'', ''medium'', ''-c:a'', ''aac'', ''-b:a'', ''128k'', ''/out/a.mp4''],
         FileProgress (Finite 100)])
   \<and> ffprobe demo_env_no_probe (duration_cmd ''/in/a.mp4'') = ProbeRaises CalledProcessError
   \<and> \<not> fst (compress_video demo_env_no_probe demo_app ''/in/a.mp4'' ''/out/a.mp4'')"
proof -
  have p: "py_float (strip ''N/A'') = None"
    by (simp add: py_float_def strip_def is_space_def lower_def lower_char_def
        is_digit_def char_of_eq_iff)
  have q: "ffprobe demo_env_no_duration (duration_cmd ''/in/a.mp4'') = ProbeOutput ''N/A''"
    "ffprobe demo_env_no_probe (duration_cmd ''/in/a.mp4'') = ProbeRaises CalledProcessError"
    by (simp_all add: demo_env_no_duration_def demo_env_no_probe_def)
  have r: "ffmpeg demo_env_no_duration
             [''ffmpeg'', ''-progress'', ''pipe:1'', ''-i'', ''/in/a.mp4'', ''-y'', ''-vf'',
              ''scale=1280x720'', ''-c:v'', ''libx264'', ''-crf'', ''23'', ''-preset'',
              ''medium'', ''-c:a'', ''aac'', ''-b:a'', ''128k'', ''/out/a.mp4'']
           = EncoderRun [''frame=100'', ''out_time_ms=5000000'', ''progress=end''] 0"
    by (simp add: demo_env_no_duration_def demo_env_def)
  show ?thesis
    using probe_degrades [of demo_env_no_duration "''/in/a.mp4''" "''N/A''" demo_app
        "''/out/a.mp4''"
        "[''ffmpeg'', ''-i'', ''/in/a.mp4'', ''-y'', ''-vf'',
          ''scale=1280x720'', ''-c:v'', ''libx264'', ''-crf'', ''23'', ''-preset'',
          ''medium'', ''-c:a'', ''aac'', ''-b:a'', ''128k'', ''/out/a.mp4'']"
        "[''frame=100'', ''out_time_ms=5000000'', ''progress=end'']" 0]
      probe_degrades [of demo_env_no_probe "''/in/a.mp4''" "[]" demo_app "''/out/a.mp4''"
        "[]" "[]" 0 CalledProcessError]
    by (simp add: p q r demo_command progress_command_shape)
qed

subsection \<open>Destinations\<close>

lemma split_on_no_sep: "w \<in> set (split_on c s) \<Longrightarrow> c \<notin> set w"
proof (induction s arbitrary: w)
  case Nil
  then show ?case by simp
next
  case (Cons a s)
  show ?case
  proof (cases "a = c")
    case True
    with Cons show ?thesis by auto
  next
    case False
    obtain v vs where sp: "split_on c s = v # vs"
      by (cases "split_on c s") (auto, cases s, auto split: if_splits list.splits)
    with Cons.prems False have "w = a # v \<or> w \<in> set vs" by auto
    with Cons.IH sp False show ?thesis by auto
  qed
qed

lemma sep_join_hd:
  "xs \<noteq> [] \<Longrightarrow> hd xs \<noteq> [] \<Longrightarrow> sep_join xs \<noteq> [] \<and> hd (sep_join xs) = hd (hd xs)"
  by (induction xs rule: sep_join.induct) auto

lemma hd_not_member: "w \<noteq> [] \<and> c \<notin> set w \<Longrightarrow> hd w \<noteq> c"
  by (cases w) auto

lemma relpath_relative:
  assumes "relpath c p start = Inr r"
  shows "r \<noteq> [] \<and> hd r \<noteq> CHR ''/''"
proof -
  let ?sl = "filter (\<lambda>x. x \<noteq> []) (split_on CHR ''/'' (abspath c start))"
  let ?pl = "filter (\<lambda>x. x \<noteq> []) (split_on CHR ''/'' (abspath c p))"
  let ?i = "common_prefix ?sl ?pl"
  let ?rl = "replicate (length ?sl - ?i) ''..'' @ drop ?i ?pl"
  from assms have eq: "r = (if ?rl = [] then ''.'' else sep_join ?rl)"
    by (auto simp: relpath_def Let_def split: if_splits)
  show ?thesis
  proof (cases "?rl = []")
    case True
    with eq have "r = ''.''" by simp
    then show ?thesis by simp
  next
    case False
    with eq have r: "r = sep_join ?rl" by simp
    from False have "hd ?rl \<in> set ?rl" by (rule hd_in_set)
    then have "hd ?rl = ''..'' \<or> hd ?rl \<in> set ?pl"
      by (auto dest: in_set_dropD)
    then have "hd ?rl \<noteq> [] \<and> CHR ''/'' \<notin> set (hd ?rl)"
      by (auto dest: split_on_no_sep)
    then have "hd ?rl \<noteq> []" "hd (hd ?rl) \<noteq> CHR ''/''"
      by (simp_all add: hd_not_member)
    with sep_join_hd [OF False] r show ?thesis by simp
  qed
qed

lemma splitext_fst_prefix: "\<exists>n. fst (splitext r) = take n r"
  by (auto simp: splitext_def Let_def intro: exI [of _ "length r"])

lemma relative_stem:
  assumes "relpath c p start = Inr r"
  shows "\<not> startswith (fst (splitext r) @ ''.'' @ fmt) ''/''"
proof -
  from relpath_relative [OF assms] have r: "r \<noteq> []" "hd r \<noteq> CHR ''/''" by simp_all
  obtain n where n: "fst (splitext r) = take n r" using splitext_fst_prefix by blast
  show ?thesis
  proof (cases "take n r")
    case Nil
    with n show ?thesis by simp
  next
    case (Cons a as)
    with r have "a = hd r" by (cases r; cases n) auto
    with r n Cons show ?thesis by simp
  qed
qed

lemma join_relative_inject:
  "\<not> startswith a ''/'' \<Longrightarrow> \<not> startswith b ''/'' \<Longrightarrow> join d a = join d b \<longleftrightarrow> a = b"
  by (auto simp: join_def)

lemma same_destination_iff:
  assumes "relpath (cwd e) f (input_dir s) = Inr r1"
    and "relpath (cwd e) g (input_dir s) = Inr r2"
  shows "output_path e s f = output_path e s g \<longleftrightarrow> fst (splitext r1) = fst (splitext r2)"
  using assms relative_stem [OF assms(1), of "output_format s"]
    relative_stem [OF assms(2), of "output_format s"]
  by (simp add: output_path_def join_relative_inject)

text \<open>
  Two videos of one directory that differ in their extension only are both found and get
  the same destination.
\<close>

theorem destinations_counterexample:
  "find_video_files demo_env_twins ''/in'' = [''/in/a.mov'', ''/in/a.mp4'']
   \<and> ''/in/a.mov'' \<noteq> ''/in/a.mp4''
   \<and> output_path demo_env_twins demo_app ''/in/a.mov'' = Inr ''/out/a.mp4''
   \<and> output_path demo_env_twins demo_app ''/in/a.mp4'' = Inr ''/out/a.mp4''"
proof -
  have "walk_path demo_env_twins ''/in'' = [(''/in'', [], [''a.mp4'', ''a.mov''])]"
    by (simp add: walk_path_def demo_env_twins_def dir_names_def file_names_def)
  moreover have "is_video ''a.mp4''" "is_video ''a.mov''"
    by (simp_all add: is_video_def splitext_def basename_def lower_def lower_char_def
      VIDEO_EXTENSIONS_def char_of_eq_iff)
  ultimately have "find_video_files demo_env_twins ''/in'' = [''/in/a.mov'', ''/in/a.mp4'']"
    by (simp add: find_video_files_def join_def)
  moreover have "output_path demo_env_twins demo_app ''/in/a.mov'' = Inr ''/out/a.mp4''"
    "output_path demo_env_twins demo_app ''/in/a.mp4'' = Inr ''/out/a.mp4''"
    by (simp_all add: output_path_def demo_env_twins_def demo_env_def demo_app_def path_defs)
  ultimately show ?thesis by simp
qed

text \<open>
  C8, amended. In every batch the encoder is run on a destination only after
  \<^verbatim>\<open>os.makedirs\<close> has made the directory of that destination; and two source
  paths get the same destination exactly when their paths relative to the input
  directory agree up to the extension, so that sources that differ in more than the
  extension have distinct destinations.
\<close>

theorem destinations:
  "dirs_made_first [] (trace (snd (process_video_files e s)))
   \<and> (relpath (cwd e) f (input_dir s) = Inr r1 \<and> relpath (cwd e) g (input_dir s) = Inr r2
      \<longrightarrow> (output_path e s f = output_path e s g
            \<longleftrightarrow> fst (splitext r1) = fst (splitext r2)))"
  using trace_dirs_made_first same_destination_iff by blast

theorem destinations_witness:
  "dirs_made_first [] (trace (snd (process_video_files demo_env demo_batch)))
   \<and> relpath (cwd demo_env) ''/in/a.mp4'' (input_dir demo_batch) = Inr ''a.mp4''
   \<and> relpath (cwd demo_env) ''/in/sub/c.mkv'' (input_dir demo_batch) = Inr ''sub/c.mkv''
   \<and> fst (splitext ''a.mp4'') \<noteq> fst (splitext ''sub/c.mkv'')
   \<and> output_path demo_env demo_batch ''/in/a.mp4''
       \<noteq> output_path demo_env demo_batch ''/in/sub/c.mkv''"
proof -
  have r: "relpath (cwd demo_env) ''/in/a.mp4'' (input_dir demo_batch) = Inr ''a.mp4''"
    "relpath (cwd demo_env) ''/in/sub/c.mkv'' (input_dir demo_batch) = Inr ''sub/c.mkv''"
    by (simp_all add: demo_env_def demo_batch_def demo_app_def path_defs)
  have d: "fst (splitext ''a.mp4'') \<noteq> fst (splitext ''sub/c.mkv'')"
    by (simp add: splitext_def basename_def)
  show ?thesis
    using destinations [of demo_env demo_batch "''/in/a.mp4''" "''a.mp4''" "''/in/sub/c.mkv''"
        "''sub/c.mkv''"] r d
    by simp
qed

end
